theory Spec2Isabelle
  imports Main
begin

section \<open>The document tree\<close>

text \<open>
  The presentation is built from the children of an SVG root element. A DOM node is an
  object; its identity is kept in \<open>nid\<close>. Text nodes and comments have no \<open>tagName\<close>
  (the source tests \<^verbatim>\<open>svgNode.tagName === undefined\<close>) and carry their text in
  \<open>nodeValue\<close>; elements have a \<open>tagName\<close> and no \<open>nodeValue\<close>. Attributes are kept by
  qualified name.
\<close>

datatype node = Node (nid: nat) (tagName: "string option") (localName: string)
  (nodeValue: "string option") (attributes: "(string \<times> string) list")
  (childNodes: "node list")

definition set_childNodes :: "node list \<Rightarrow> node \<Rightarrow> node" where
  "set_childNodes cs n = Node (nid n) (tagName n) (localName n) (nodeValue n) (attributes n) cs"

definition getAttribute :: "node \<Rightarrow> string \<Rightarrow> string option" where
  "getAttribute n name = map_of (attributes n) name"

definition hasAttribute :: "node \<Rightarrow> string \<Rightarrow> bool" where
  "hasAttribute n name = (getAttribute n name \<noteq> None)"

fun put_attribute :: "string \<Rightarrow> string \<Rightarrow> (string \<times> string) list \<Rightarrow> (string \<times> string) list" where
  "put_attribute name v [] = [(name, v)]"
| "put_attribute name v ((k, w) # as) =
     (if k = name then (k, v) # as else (k, w) # put_attribute name v as)"

definition setAttribute :: "node \<Rightarrow> string \<Rightarrow> string \<Rightarrow> node" where
  "setAttribute n name v =
     Node (nid n) (tagName n) (localName n) (nodeValue n) (put_attribute name v (attributes n))
       (childNodes n)"

text \<open>\<^verbatim>\<open>node.firstChild\<close>: the first child, or null.\<close>

definition firstChild :: "node \<Rightarrow> node option" where
  "firstChild n = (case childNodes n of [] \<Rightarrow> None | c # _ \<Rightarrow> Some c)"

text \<open>
  \<^verbatim>\<open>document.createElementNS(ns, name)\<close> makes a new element, without attributes,
  children or parent. The identity of the new object is the next unused one.
\<close>

definition createElementNS :: "nat \<Rightarrow> string \<Rightarrow> node" where
  "createElementNS fresh name = Node fresh (Some name) name None [] []"

text \<open>
  The operations on the list of children of a parent. A node has one parent at most, so
  moving a node below a new parent takes it out of the list of the old one.
  \<^verbatim>\<open>removeChild\<close> and \<^verbatim>\<open>insertBefore\<close> find the child by identity; the DOM raises
  NotFoundError when the child is not there, and the model leaves the list as it is
  (the pass below only calls them with a node of its snapshot that is still in place).
\<close>

fun remove_node :: "nat \<Rightarrow> node list \<Rightarrow> node list" where
  "remove_node i [] = []"
| "remove_node i (c # cs) = (if nid c = i then cs else c # remove_node i cs)"

fun insert_node_before :: "node \<Rightarrow> nat \<Rightarrow> node list \<Rightarrow> node list" where
  "insert_node_before new i [] = []"
| "insert_node_before new i (c # cs) =
     (if nid c = i then new # c # cs else c # insert_node_before new i cs)"

definition removeChild :: "node \<Rightarrow> node \<Rightarrow> node" where
  "removeChild parent child = set_childNodes (remove_node (nid child) (childNodes parent)) parent"

definition insertBefore :: "node \<Rightarrow> node \<Rightarrow> node \<Rightarrow> node" where
  "insertBefore parent new reference =
     set_childNodes (insert_node_before new (nid reference) (childNodes parent)) parent"

definition appendChild :: "node \<Rightarrow> node \<Rightarrow> node" where
  "appendChild parent child = set_childNodes (childNodes parent @ [child]) parent"

section \<open>Strings and numbers of the host language\<close>

text \<open>
  \<^verbatim>\<open>String.prototype.toLowerCase\<close> on the letters A to Z. (Of the characters
  beyond ASCII only the Kelvin sign maps to an ASCII letter, k, and no drawable tag has
  one.)
\<close>

definition toLowerCase_char :: "char \<Rightarrow> char" where
  "toLowerCase_char c =
     (if (65::nat) \<le> of_char c \<and> of_char c \<le> (90::nat) then char_of (of_char c + (32::nat)) else c)"

definition toLowerCase :: "string \<Rightarrow> string" where
  "toLowerCase s = map toLowerCase_char s"

text \<open>The decimal numeral of a number, as string concatenation makes it.\<close>

definition digit_char :: "nat \<Rightarrow> char" where
  "digit_char d = char_of (48 + d)"

fun String_of_nat :: "nat \<Rightarrow> string" where
  "String_of_nat n =
     (if n < 10 then [digit_char n] else String_of_nat (n div 10) @ [digit_char (n mod 10)])"

declare String_of_nat.simps [simp del]

text \<open>\<^verbatim>\<open>Array.prototype.indexOf\<close>: the first position of a value, or -1.\<close>

fun indexOf :: "'a list \<Rightarrow> 'a \<Rightarrow> int" where
  "indexOf [] x = - 1"
| "indexOf (y # ys) x =
     (if y = x then 0 else (let i = indexOf ys x in if i = - 1 then - 1 else i + 1))"

text \<open>
  The property names every object literal inherits from \<^verbatim>\<open>Object.prototype\<close>. The
  operator \<^verbatim>\<open>in\<close> and a property read follow the prototype chain, so these names are
  found in an empty object too. Each of them holds an object (a function, or the
  prototype itself).
\<close>

definition Object_prototype :: "string list" where
  "Object_prototype =
     [''constructor'', ''toString'', ''toLocaleString'', ''valueOf'', ''hasOwnProperty'',
      ''isPrototypeOf'', ''propertyIsEnumerable'', ''__defineGetter__'', ''__defineSetter__'',
      ''__lookupGetter__'', ''__lookupSetter__'', ''__proto__'']"

datatype 'v property = Own 'v | Inherited | Undefined

definition get_property :: "(string \<rightharpoonup> 'v) \<Rightarrow> string \<Rightarrow> 'v property" where
  "get_property obj key =
     (case obj key of
        Some v \<Rightarrow> Own v
      | None \<Rightarrow> if key \<in> set Object_prototype then Inherited else Undefined)"

definition in_object :: "string \<Rightarrow> (string \<rightharpoonup> 'v) \<Rightarrow> bool" where
  "in_object key obj = (get_property obj key \<noteq> Undefined)"

section \<open>Layers, frames and the presentation\<close>

definition DRAWABLE_TAGS :: "string list" where
  "DRAWABLE_TAGS = [''g'', ''image'', ''path'', ''rect'', ''circle'',
     ''ellipse'', ''line'', ''polyline'', ''polygon'', ''text'', ''clippath'']"

text \<open>
  A layer as the object literals of \<^verbatim>\<open>init\<close> build it. \<open>label\<close> is \<open>None\<close> when the
  literal has no such property; \<open>svgNode\<close> refers to the node by its identity.
\<close>

record layer =
  auto :: bool
  selected :: bool
  label :: "string option"
  svgNode :: nat

text \<open>
  \<^verbatim>\<open>sozi.model.Object\<close> is not part of the sources at hand. Its \<^verbatim>\<open>init\<close> gives the
  object its \<^verbatim>\<open>id\<close>: the functions below take that number as the parameter
  \<open>oid\<close>.
\<close>

record 'a frame =
  presentation :: nat
  state :: 'a
  id' :: nat
  frameId :: string
  title :: string
  selected :: bool

definition Frame_init :: "nat \<Rightarrow> nat \<Rightarrow> 'a \<Rightarrow> 'a frame" where
  "Frame_init oid pres st =
     \<lparr>presentation = pres, state = st, id' = oid, frameId = ''frame'' @ String_of_nat oid,
      title = ''New frame'', selected = False\<rparr>"

datatype 'a event =
    E_selectLayer string
  | E_deselectLayer string
  | E_selectFrame int
  | E_deselectFrame int
  | E_addFrame "'a frame" int

record 'a presentation =
  pid :: nat
  svgRoot :: node
  layers :: "string \<rightharpoonup> layer"
  frames :: "'a frame list"
  fired :: "'a event list"

text \<open>
  Modelled from the spec: \<^verbatim>\<open>fire\<close> of \<^verbatim>\<open>sozi.model.Object\<close> is missing from the
  sources. The spec has it call the registered handlers at once, in order; the model
  records the notification, with its arguments, at the end of the trace \<open>fired\<close>.
\<close>

definition fire :: "'a event \<Rightarrow> ('a, 'b) presentation_scheme \<Rightarrow> ('a, 'b) presentation_scheme" where
  "fire e p = p\<lparr>fired := fired p @ [e]\<rparr>"

section \<open>Building the layers: \<^verbatim>\<open>Presentation.init\<close>\<close>

text \<open>
  The state of the pass: the presentation \<^verbatim>\<open>this\<close>, and the local variables
  \<^verbatim>\<open>wrapperCount\<close> and \<^verbatim>\<open>svgWrapper\<close>. \<open>nextNode\<close> is the identity of the next
  element that \<^verbatim>\<open>document.createElementNS\<close> makes. The wrapper is changed only while
  it is outside the tree, and no node is changed after it has been registered, so the
  tree is kept as a value.
\<close>

record 'a init_state = "'a presentation" +
  nextNode :: nat
  wrapperCount :: nat
  svgWrapper :: node

definition wrapper_id :: "nat \<Rightarrow> nat \<Rightarrow> string" where
  "wrapper_id oid n = ''sozi-wrapper-'' @ String_of_nat oid @ ''-'' @ String_of_nat n"

definition new_wrapper :: "nat \<Rightarrow> nat \<Rightarrow> nat \<Rightarrow> node" where
  "new_wrapper fresh oid n = setAttribute (createElementNS fresh ''g'') ''id'' (wrapper_id oid n)"

text \<open>The test of line 84: a group, with an id, and the id not met before.\<close>

definition valid_layer :: "string \<Rightarrow> node \<Rightarrow> (string \<rightharpoonup> layer) \<Rightarrow> bool" where
  "valid_layer nodeName nd ls =
     (nodeName = ''g'' \<and>
      (case getAttribute nd ''id'' of
         None \<Rightarrow> False
       | Some i \<Rightarrow> i \<noteq> [] \<and> \<not> in_object i ls))"

text \<open>Lines 87 to 100: the wrapper goes into the tree before the node, if it has a child.\<close>

definition flush_wrapper :: "node \<Rightarrow> 'a init_state \<Rightarrow> 'a init_state" where
  "flush_wrapper nd s =
     (if firstChild (svgWrapper s) \<noteq> None then
        (let w = svgWrapper s; wid = the (getAttribute w ''id'') in
         s\<lparr>svgRoot := insertBefore (svgRoot s) w nd,
           layers := (layers s)(wid \<mapsto>
              \<lparr>auto = True, selected = True, label = Some (''#'' @ wid), svgNode = nid w\<rparr>),
           nextNode := Suc (nextNode s),
           wrapperCount := wrapperCount s + 1,
           svgWrapper := new_wrapper (nextNode s) (pid s) (wrapperCount s + 1)\<rparr>)
      else s)"

text \<open>Lines 103 to 109.\<close>

definition register_layer :: "node \<Rightarrow> string \<Rightarrow> 'a init_state \<Rightarrow> 'a init_state" where
  "register_layer nd i s =
     s\<lparr>layers := (layers s)(i \<mapsto>
        \<lparr>auto = False, selected = True,
         label = Some (if hasAttribute nd ''inkscape:label''
                       then the (getAttribute nd ''inkscape:label'') else ''#'' @ i),
         svgNode = nid nd\<rparr>)\<rparr>"

text \<open>The body of the loop, lines 72 to 115.\<close>

definition forEach_body :: "node \<Rightarrow> 'a init_state \<Rightarrow> 'a init_state" where
  "forEach_body nd s =
     (if tagName nd = None then s\<lparr>svgRoot := removeChild (svgRoot s) nd\<rparr>
      else
        (let nodeName = toLowerCase (localName nd) in
         if indexOf DRAWABLE_TAGS nodeName \<noteq> - 1 then
           (if valid_layer nodeName nd (layers s) then
              register_layer nd (the (getAttribute nd ''id'')) (flush_wrapper nd s)
            else
              s\<lparr>svgRoot := removeChild (svgRoot s) nd,
                svgWrapper := appendChild (svgWrapper s) nd\<rparr>)
         else s))"

fun forEach :: "node list \<Rightarrow> 'a init_state \<Rightarrow> 'a init_state" where
  "forEach [] s = s"
| "forEach (nd # svgNodeList) s = forEach svgNodeList (forEach_body nd s)"

text \<open>Lines 120 to 127: the last wrapper goes to the end of the tree, without a label.\<close>

definition append_wrapper :: "'a init_state \<Rightarrow> 'a init_state" where
  "append_wrapper s =
     (if firstChild (svgWrapper s) \<noteq> None then
        (let w = svgWrapper s; wid = the (getAttribute w ''id'') in
         s\<lparr>svgRoot := appendChild (svgRoot s) w,
           layers := (layers s)(wid \<mapsto>
              \<lparr>auto = True, selected = True, label = None, svgNode = nid w\<rparr>)\<rparr>)
      else s)"

definition init_start :: "nat \<Rightarrow> node \<Rightarrow> nat \<Rightarrow> 'a init_state" where
  "init_start oid root fresh =
     \<lparr>pid = oid, svgRoot = root, layers = Map.empty, frames = [], fired = [],
      nextNode = Suc fresh, wrapperCount = 0, svgWrapper = new_wrapper fresh oid 0\<rparr>"

text \<open>The state when the loop over the snapshot of the children has ended (line 116).\<close>

definition pass :: "nat \<Rightarrow> node \<Rightarrow> nat \<Rightarrow> 'a init_state" where
  "pass oid root fresh = forEach (childNodes root) (init_start oid root fresh)"

definition init :: "nat \<Rightarrow> node \<Rightarrow> nat \<Rightarrow> 'a presentation" where
  "init oid root fresh = presentation.truncate (append_wrapper (pass oid root fresh))"

section \<open>Selection\<close>

text \<open>
  An operation either returns \<^verbatim>\<open>this\<close> or throws. The result is the error, if any, and
  the presentation as the operation leaves it. Writing a property of \<^verbatim>\<open>undefined\<close> is a
  TypeError; the file is in strict mode.
\<close>

datatype error = TypeError

text \<open>
  Lines 178 to 200. \<^verbatim>\<open>this.layers[layerId]\<close> is a layer, or an object inherited from
  \<^verbatim>\<open>Object.prototype\<close> (the write then lands on that object, outside the
  presentation), or \<^verbatim>\<open>undefined\<close>.
\<close>

definition selectLayer :: "string \<Rightarrow> 'a presentation \<Rightarrow> error option \<times> 'a presentation" where
  "selectLayer layerId p =
     (case get_property (layers p) layerId of
        Own l \<Rightarrow> (None, fire (E_selectLayer layerId)
                   (p\<lparr>layers := (layers p)(layerId \<mapsto> l\<lparr>layer.selected := True\<rparr>)\<rparr>))
      | Inherited \<Rightarrow> (None, fire (E_selectLayer layerId) p)
      | Undefined \<Rightarrow> (Some TypeError, p))"

definition deselectLayer :: "string \<Rightarrow> 'a presentation \<Rightarrow> error option \<times> 'a presentation" where
  "deselectLayer layerId p =
     (case get_property (layers p) layerId of
        Own l \<Rightarrow> (None, fire (E_deselectLayer layerId)
                   (p\<lparr>layers := (layers p)(layerId \<mapsto> l\<lparr>layer.selected := False\<rparr>)\<rparr>))
      | Inherited \<Rightarrow> (None, fire (E_deselectLayer layerId) p)
      | Undefined \<Rightarrow> (Some TypeError, p))"

text \<open>\<^verbatim>\<open>this.frames[frameIndex]\<close>, for a whole number: the element, or \<^verbatim>\<open>undefined\<close>.\<close>

definition frame_at :: "'a frame list \<Rightarrow> int \<Rightarrow> 'a frame option" where
  "frame_at fs i = (if 0 \<le> i \<and> i < int (length fs) then Some (fs ! nat i) else None)"

text \<open>Lines 246 to 268.\<close>

definition selectFrame :: "int \<Rightarrow> 'a presentation \<Rightarrow> error option \<times> 'a presentation" where
  "selectFrame frameIndex p =
     (case frame_at (frames p) frameIndex of
        Some f \<Rightarrow> (None, fire (E_selectFrame frameIndex)
                    (p\<lparr>frames := (frames p)[nat frameIndex := f\<lparr>selected := True\<rparr>]\<rparr>))
      | None \<Rightarrow> (Some TypeError, p))"

definition deselectFrame :: "int \<Rightarrow> 'a presentation \<Rightarrow> error option \<times> 'a presentation" where
  "deselectFrame frameIndex p =
     (case frame_at (frames p) frameIndex of
        Some f \<Rightarrow> (None, fire (E_deselectFrame frameIndex)
                    (p\<lparr>frames := (frames p)[nat frameIndex := f\<lparr>selected := False\<rparr>]\<rparr>))
      | None \<Rightarrow> (Some TypeError, p))"

lemma length_frames_deselectFrame:
  "deselectFrame i p = (r, p') \<Longrightarrow> length (frames p') = length (frames p)"
  by (auto simp: deselectFrame_def fire_def split: option.splits)

text \<open>Lines 227 to 232: the loop of \<^verbatim>\<open>deselectAllFrames\<close>, from \<open>frameIndex\<close> on.\<close>

function deselectAllFrames_for :: "int \<Rightarrow> 'a presentation \<Rightarrow> error option \<times> 'a presentation" where
  "deselectAllFrames_for frameIndex p =
     (if frameIndex < int (length (frames p)) then
        (case deselectFrame frameIndex p of
           (None, p') \<Rightarrow> deselectAllFrames_for (frameIndex + 1) p'
         | (Some e, p') \<Rightarrow> (Some e, p'))
      else (None, p))"
  by pat_completeness auto
termination
  by (relation "measure (\<lambda>(i, p). nat (int (length (frames p)) - i))")
     (auto dest: length_frames_deselectFrame [OF sym])

declare deselectAllFrames_for.simps [simp del]

definition deselectAllFrames :: "'a presentation \<Rightarrow> error option \<times> 'a presentation" where
  "deselectAllFrames p = deselectAllFrames_for 0 p"

section \<open>Adding a frame\<close>

text \<open>\<^verbatim>\<open>Array.prototype.splice(start, 0, item)\<close>: a negative start counts from the end.\<close>

definition splice :: "int \<Rightarrow> 'b \<Rightarrow> 'b list \<Rightarrow> 'b list" where
  "splice start item xs =
     (let len = int (length xs);
          k = nat (if start < 0 then max (len + start) 0 else min start len)
      in take k xs @ [item] @ drop k xs)"

text \<open>
  Lines 272 to 277: the loop runs down from \<open>frameIndex\<close>; it stops below 0, or at a
  selected frame, after which the new frame is inserted. It yields the last value of
  \<^verbatim>\<open>frameIndex\<close>.
\<close>

function addFrame_for :: "'a frame \<Rightarrow> int \<Rightarrow> 'a presentation \<Rightarrow> (error + int) \<times> 'a presentation" where
  "addFrame_for frame frameIndex p =
     (if frameIndex \<ge> 0 then
        (case frame_at (frames p) frameIndex of
           None \<Rightarrow> (Inl TypeError, p)
         | Some f \<Rightarrow>
             if selected f then
               (Inr frameIndex, p\<lparr>frames := splice (frameIndex + 1) frame (frames p)\<rparr>)
             else addFrame_for frame (frameIndex - 1) p)
      else (Inr frameIndex, p))"
  by pat_completeness auto
termination
  by (relation "measure (\<lambda>(frame, i, p). nat (i + 1))") auto

declare addFrame_for.simps [simp del]

text \<open>
  Lines 270 to 286. \<open>frameIndex\<close> is the variable of the source, which line 274 leaves
  at the index of the selected frame. \<open>ins\<close> is the index at which the new frame stands
  in \<open>frames\<close>; the result is the frame object as it is at the end, read there (the
  selection steps keep the length of \<open>frames\<close>, so \<open>ins\<close> is within it).
\<close>

definition addFrame :: "nat \<Rightarrow> 'a \<Rightarrow> 'a presentation \<Rightarrow> (error + 'a frame) \<times> 'a presentation" where
  "addFrame oid st p =
     (let frame = Frame_init oid (pid p) st in
      case addFrame_for frame (int (length (frames p)) - 1) p of
        (Inl e, p1) \<Rightarrow> (Inl e, p1)
      | (Inr i, p1) \<Rightarrow>
          (let frameIndex = (if i = - 1 then int (length (frames p1)) else i);
               ins = (if i = - 1 then int (length (frames p1)) else i + 1);
               p2 = (if i = - 1 then p1\<lparr>frames := frames p1 @ [frame]\<rparr> else p1);
               p3 = fire (E_addFrame frame frameIndex) p2
           in case deselectAllFrames p3 of
                (Some e, p4) \<Rightarrow> (Inl e, p4)
              | (None, p4) \<Rightarrow>
                  (case selectFrame frameIndex p4 of
                     (Some e, p5) \<Rightarrow> (Inl e, p5)
                   | (None, p5) \<Rightarrow>
                       (Inr (case frame_at (frames p5) ins of Some f \<Rightarrow> f | None \<Rightarrow> frame),
                        p5))))"

section \<open>Notions for the properties of the pass\<close>

text \<open>A drawable child: an element whose lower-case local name is a drawable tag.\<close>

definition drawable :: "node \<Rightarrow> bool" where
  "drawable nd = (tagName nd \<noteq> None \<and> indexOf DRAWABLE_TAGS (toLowerCase (localName nd)) \<noteq> - 1)"

text \<open>
  The input of the pass: the children of the root are different objects, and \<open>fresh\<close>,
  the identity of the next element the document makes, is beyond all of them.
\<close>

definition well_formed :: "node \<Rightarrow> nat \<Rightarrow> bool" where
  "well_formed root fresh =
     (distinct (map nid (childNodes root)) \<and> (\<forall>c\<in>set (childNodes root). nid c < fresh))"

text \<open>
  What a child of the root stands for after the pass: a child that was there before
  stands for itself, a new one (a wrapper) for its children.
\<close>

definition layer_contents :: "node \<Rightarrow> node \<Rightarrow> node list" where
  "layer_contents root c = (if nid c \<in> set (map nid (childNodes root)) then [c] else childNodes c)"

text \<open>
  For the proofs: the same with the wrappers told by their identity; the nodes one
  step of the loop leaves in the tree before the remaining ones; and what holds between
  two steps, with \<open>placed\<close> the children of the root that are done with and \<open>rs\<close> the
  nodes of the snapshot that are still to come.
\<close>

definition unwrap :: "nat \<Rightarrow> node list \<Rightarrow> node list" where
  "unwrap fresh cs = concat (map (\<lambda>c. if nid c < fresh then [c] else childNodes c) cs)"

definition placed_by :: "node \<Rightarrow> 'a init_state \<Rightarrow> node list" where
  "placed_by nd s =
     (if tagName nd = None then []
      else if \<not> drawable nd then [nd]
      else if valid_layer (toLowerCase (localName nd)) nd (layers s) then
        (if childNodes (svgWrapper s) = [] then [nd] else [svgWrapper s, nd])
      else [])"

definition pass_inv :: "nat \<Rightarrow> nat \<Rightarrow> node list \<Rightarrow> node list \<Rightarrow> 'a init_state \<Rightarrow> bool" where
  "pass_inv fresh oid placed rs s =
     (childNodes (svgRoot s) = placed @ rs \<and>
      distinct (map nid rs) \<and>
      (\<forall>c\<in>set rs. nid c < fresh) \<and>
      (\<forall>c\<in>set placed. nid c \<notin> nid ` set rs \<and> nid c < fresh + wrapperCount s) \<and>
      pid s = oid \<and>
      nextNode s = Suc (fresh + wrapperCount s) \<and>
      nid (svgWrapper s) = fresh + wrapperCount s \<and>
      tagName (svgWrapper s) = Some ''g'' \<and>
      localName (svgWrapper s) = ''g'' \<and>
      attributes (svgWrapper s) = [(''id'', wrapper_id oid (wrapperCount s))] \<and>
      (\<forall>c\<in>set (childNodes (svgWrapper s)). drawable c \<and> nid c < fresh))"

text \<open>
  The ids of the wrappers of the presentation \<open>oid\<close> begin with \<open>wrapper_prefix oid\<close>; an
  id is reserved when it begins so.
\<close>

definition wrapper_prefix :: "nat \<Rightarrow> string" where
  "wrapper_prefix oid = ''sozi-wrapper-'' @ String_of_nat oid @ ''-''"

definition reserved_id :: "nat \<Rightarrow> string \<Rightarrow> bool" where
  "reserved_id oid i = (take (length (wrapper_prefix oid)) i = wrapper_prefix oid)"

text \<open>The entries that lines 89 to 94 and 103 to 109 write into the layer map.\<close>

definition wrapper_layer :: "node \<Rightarrow> layer" where
  "wrapper_layer w =
     \<lparr>auto = True, selected = True, label = Some (''#'' @ the (getAttribute w ''id'')),
      svgNode = nid w\<rparr>"

definition explicit_layer :: "node \<Rightarrow> layer" where
  "explicit_layer nd =
     \<lparr>auto = False, selected = True,
      label = Some (if hasAttribute nd ''inkscape:label''
                    then the (getAttribute nd ''inkscape:label'')
                    else ''#'' @ the (getAttribute nd ''id'')),
      svgNode = nid nd\<rparr>"

text \<open>No child in the list carries a reserved id.\<close>

definition no_reserved_ids :: "nat \<Rightarrow> node list \<Rightarrow> bool" where
  "no_reserved_ids oid cs =
     (\<forall>c\<in>set cs. case getAttribute c ''id'' of None \<Rightarrow> True | Some i \<Rightarrow> \<not> reserved_id oid i)"

text \<open>
  No group in the list has for id a name that every object inherits from
  \<^verbatim>\<open>Object.prototype\<close>: for such an id the test \<^verbatim>\<open>in\<close> of line 84 holds of the empty
  layer map already.
\<close>

definition no_inherited_ids :: "node list \<Rightarrow> bool" where
  "no_inherited_ids cs =
     (\<forall>c\<in>set cs. toLowerCase (localName c) = ''g'' \<longrightarrow>
        (case getAttribute c ''id'' of None \<Rightarrow> True | Some i \<Rightarrow> i \<notin> set Object_prototype))"

text \<open>
  The runs of drawable children that are not layers of their own, as the comment of
  lines 80 to 83 has it: a child is a layer of its own when it is a group with an id
  that was not met before (\<open>seen\<close> holds the ids of the layers met so far). Such a
  child ends the current run; any other drawable child goes to the end of the current
  run; a child that is not drawable does nothing. \<open>runs seen run cs\<close> lists the runs
  of \<open>cs\<close>, the first one
  begun with \<open>run\<close>; empty runs are in the list.
\<close>

definition qualifies :: "string list \<Rightarrow> node \<Rightarrow> bool" where
  "qualifies seen c =
     (toLowerCase (localName c) = ''g'' \<and>
      (case getAttribute c ''id'' of
         None \<Rightarrow> False
       | Some i \<Rightarrow> i \<noteq> [] \<and> i \<notin> set seen))"

fun runs :: "string list \<Rightarrow> node list \<Rightarrow> node list \<Rightarrow> node list list" where
  "runs seen run [] = [run]"
| "runs seen run (c # cs) =
     (if \<not> drawable c then runs seen run cs
      else if qualifies seen c then run # runs (the (getAttribute c ''id'') # seen) [] cs
      else runs seen (run @ [c]) cs)"

text \<open>
  A tree that a pass leaves alone: every child is an element, every drawable child is a
  group with an id (not an inherited name), and these ids are all different.
\<close>

definition layer_node :: "node \<Rightarrow> bool" where
  "layer_node c =
     (tagName c \<noteq> None \<and> toLowerCase (localName c) = ''g'' \<and>
      (case getAttribute c ''id'' of
         None \<Rightarrow> False
       | Some i \<Rightarrow> i \<noteq> [] \<and> i \<notin> set Object_prototype))"

definition settled :: "node list \<Rightarrow> bool" where
  "settled cs =
     ((\<forall>c\<in>set cs. tagName c \<noteq> None \<and> (drawable c \<longrightarrow> layer_node c)) \<and>
      distinct (map (\<lambda>c. getAttribute c ''id'') (filter drawable cs)))"

text \<open>
  For the proofs: what holds of the layer map between two steps when no id is reserved
  (the wrapper of number \<open>n\<close> has the identity \<open>fresh + n\<close>), and that the drawable
  nodes of a list have their ids in a layer map.
\<close>

definition layers_inv :: "nat \<Rightarrow> nat \<Rightarrow> 'a init_state \<Rightarrow> bool" where
  "layers_inv fresh oid s =
     ((\<forall>k l. layers s k = Some l \<longrightarrow>
         (if auto l then (\<exists>n<wrapperCount s. k = wrapper_id oid n \<and> svgNode l = fresh + n)
          else \<not> reserved_id oid k \<and> svgNode l < fresh)) \<and>
      (\<forall>n<wrapperCount s. \<exists>l. layers s (wrapper_id oid n) = Some l \<and> auto l \<and>
         svgNode l = fresh + n))"

definition registered :: "(string \<rightharpoonup> layer) \<Rightarrow> node list \<Rightarrow> bool" where
  "registered ls cs =
     (\<forall>c\<in>set cs. drawable c \<longrightarrow> (\<exists>i. getAttribute c ''id'' = Some i \<and> ls i \<noteq> None))"

section \<open>Example inputs\<close>

text \<open>
  The tree of the concrete scenario: a whitespace text node, a rect without id, a group
  with id L1, a circle, and a second group with id L1.
\<close>

definition scenario :: node where
  "scenario = Node 0 (Some ''svg'') ''svg'' None []
     [Node 1 None [] (Some '' '') [] [],
      Node 2 (Some ''rect'') ''rect'' None [] [],
      Node 3 (Some ''g'') ''g'' None [(''id'', ''L1'')] [],
      Node 4 (Some ''circle'') ''circle'' None [] [],
      Node 5 (Some ''g'') ''g'' None [(''id'', ''L1'')] []]"

text \<open>A presentation with one layer and three frames, the second of them selected.\<close>

definition demo :: "nat presentation" where
  "demo =
     \<lparr>pid = 1, svgRoot = Node 0 (Some ''svg'') ''svg'' None []
        [Node 3 (Some ''g'') ''g'' None [(''id'', ''L1'')] []],
      layers = [''L1'' \<mapsto> \<lparr>auto = False, selected = True, label = Some ''#L1'', svgNode = 3\<rparr>],
      frames = [(Frame_init 2 1 20)\<lparr>title := ''a''\<rparr>,
                (Frame_init 3 1 30)\<lparr>title := ''b'', selected := True\<rparr>,
                (Frame_init 4 1 40)\<lparr>title := ''c''\<rparr>],
      fired = []\<rparr>"

text \<open>Two groups with the same id, which is the id of the first wrapper of presentation 1.\<close>

definition clash_duplicate :: node where
  "clash_duplicate = Node 0 (Some ''svg'') ''svg'' None []
     [Node 1 (Some ''g'') ''g'' None [(''id'', ''sozi-wrapper-1-0'')] [],
      Node 2 (Some ''g'') ''g'' None [(''id'', ''sozi-wrapper-1-0'')] []]"

text \<open>
  A rect, then a group whose id is that of the wrapper the rect goes into; and the same
  group followed by the rect.
\<close>

definition clash_run :: node where
  "clash_run = Node 0 (Some ''svg'') ''svg'' None []
     [Node 1 (Some ''rect'') ''rect'' None [] [],
      Node 2 (Some ''g'') ''g'' None [(''id'', ''sozi-wrapper-1-0'')] []]"

definition clash_wrapper :: node where
  "clash_wrapper = Node 0 (Some ''svg'') ''svg'' None []
     [Node 1 (Some ''g'') ''g'' None [(''id'', ''sozi-wrapper-1-0'')] [],
      Node 2 (Some ''rect'') ''rect'' None [] []]"

text \<open>A group whose id is a name inherited from \<^verbatim>\<open>Object.prototype\<close>, between two shapes.\<close>

definition inherited_group :: node where
  "inherited_group = Node 0 (Some ''svg'') ''svg'' None []
     [Node 1 (Some ''rect'') ''rect'' None [] [],
      Node 2 (Some ''g'') ''g'' None [(''id'', ''constructor'')] [],
      Node 3 (Some ''circle'') ''circle'' None [] []]"

section \<open>Lemmas on the pass\<close>

lemmas scenario_eval_defs = init_def pass_def init_start_def new_wrapper_def createElementNS_def
  setAttribute_def forEach_body_def removeChild_def set_childNodes_def presentation.truncate_def
  valid_layer_def DRAWABLE_TAGS_def toLowerCase_def toLowerCase_char_def getAttribute_def
  flush_wrapper_def firstChild_def appendChild_def register_layer_def in_object_def
  get_property_def append_wrapper_def insertBefore_def hasAttribute_def Object_prototype_def
  Let_def

lemma indexOf_ge: "- 1 \<le> indexOf xs x"
  by (induction xs) (auto simp: Let_def)

lemma indexOf_mem: "indexOf xs x \<noteq> - 1 \<longleftrightarrow> x \<in> set xs"
proof (induction xs)
  case Nil
  show ?case by simp
next
  case (Cons y ys)
  have "- 1 \<le> indexOf ys x" by (rule indexOf_ge)
  with Cons show ?case by (auto simp: Let_def)
qed

lemma set_childNodes_sel [simp]:
  "childNodes (set_childNodes cs n) = cs" "nid (set_childNodes cs n) = nid n"
  "tagName (set_childNodes cs n) = tagName n" "localName (set_childNodes cs n) = localName n"
  "attributes (set_childNodes cs n) = attributes n" "nodeValue (set_childNodes cs n) = nodeValue n"
  by (simp_all add: set_childNodes_def)

lemma new_wrapper_sel [simp]:
  "childNodes (new_wrapper f oid n) = []" "nid (new_wrapper f oid n) = f"
  "tagName (new_wrapper f oid n) = Some ''g''" "localName (new_wrapper f oid n) = ''g''"
  "attributes (new_wrapper f oid n) = [(''id'', wrapper_id oid n)]"
  by (simp_all add: new_wrapper_def createElementNS_def setAttribute_def)

lemma firstChild_None [simp]: "firstChild n = None \<longleftrightarrow> childNodes n = []"
  by (simp add: firstChild_def split: list.splits)

lemma remove_node_mid:
  "nid c \<notin> nid ` set placed \<Longrightarrow> remove_node (nid c) (placed @ c # rs) = placed @ rs"
  by (induction placed) auto

lemma insert_node_before_mid:
  "nid c \<notin> nid ` set placed \<Longrightarrow>
   insert_node_before w (nid c) (placed @ c # rs) = placed @ w # c # rs"
  by (induction placed) auto

lemma forEach_body_text:
  "tagName nd = None \<Longrightarrow> forEach_body nd s = s\<lparr>svgRoot := removeChild (svgRoot s) nd\<rparr>"
  by (simp add: forEach_body_def)

lemma forEach_body_other:
  "tagName nd \<noteq> None \<Longrightarrow> \<not> drawable nd \<Longrightarrow> forEach_body nd s = s"
  by (auto simp: forEach_body_def drawable_def Let_def)

lemma forEach_body_layer:
  "drawable nd \<Longrightarrow> valid_layer (toLowerCase (localName nd)) nd (layers s) \<Longrightarrow>
   forEach_body nd s = register_layer nd (the (getAttribute nd ''id'')) (flush_wrapper nd s)"
  by (auto simp: forEach_body_def drawable_def Let_def)

lemma forEach_body_wrap:
  "drawable nd \<Longrightarrow> \<not> valid_layer (toLowerCase (localName nd)) nd (layers s) \<Longrightarrow>
   forEach_body nd s =
     s\<lparr>svgRoot := removeChild (svgRoot s) nd, svgWrapper := appendChild (svgWrapper s) nd\<rparr>"
  by (auto simp: forEach_body_def drawable_def Let_def)

lemma pass_inv_step:
  assumes "pass_inv fresh oid placed (c # rs) s"
  shows "pass_inv fresh oid (placed @ placed_by c s) rs (forEach_body c s)"
proof -
  have root: "childNodes (svgRoot s) = placed @ c # rs"
    and c: "nid c \<notin> nid ` set placed" "nid c \<notin> nid ` set rs" "nid c < fresh"
    using assms by (auto simp: pass_inv_def)
  consider (nonelem) "tagName c = None"
    | (other) "tagName c \<noteq> None" "\<not> drawable c"
    | (layer) "drawable c" "valid_layer (toLowerCase (localName c)) c (layers s)"
    | (wrap) "drawable c" "\<not> valid_layer (toLowerCase (localName c)) c (layers s)"
    by (auto simp: drawable_def)
  then show ?thesis
  proof cases
    case nonelem
    then show ?thesis using assms c
      by (auto simp: forEach_body_text placed_by_def pass_inv_def removeChild_def remove_node_mid)
  next
    case other
    then show ?thesis using assms c
      by (auto simp: forEach_body_other placed_by_def pass_inv_def)
  next
    case layer
    then have nt: "tagName c \<noteq> None" by (simp add: drawable_def)
    show ?thesis
    proof (cases "childNodes (svgWrapper s) = []")
      case True
      then show ?thesis using assms c layer nt
        by (auto simp: forEach_body_layer placed_by_def pass_inv_def register_layer_def flush_wrapper_def)
    next
      case False
      then show ?thesis using assms c layer nt
        by (auto simp: forEach_body_layer placed_by_def pass_inv_def register_layer_def
            flush_wrapper_def Let_def insertBefore_def insert_node_before_mid)
    qed
  next
    case wrap
    then have nt: "tagName c \<noteq> None" by (simp add: drawable_def)
    show ?thesis using assms c wrap nt
      by (auto simp: forEach_body_wrap placed_by_def pass_inv_def removeChild_def remove_node_mid
          appendChild_def)
  qed
qed

lemma pass_inv_start:
  "well_formed root fresh \<Longrightarrow> pass_inv fresh oid [] (childNodes root) (init_start oid root fresh)"
  by (simp add: well_formed_def pass_inv_def init_start_def)

lemma pass_inv_forEach:
  "pass_inv fresh oid placed rs s \<Longrightarrow> \<exists>placed'. pass_inv fresh oid placed' [] (forEach rs s)"
proof (induction rs arbitrary: placed s)
  case Nil
  then show ?case by auto
next
  case (Cons c rs)
  from pass_inv_step [OF Cons.prems] Cons.IH show ?case by simp
qed

lemma unwrap_simps [simp]:
  "unwrap fresh [] = []"
  "unwrap fresh (c # cs) = (if nid c < fresh then [c] else childNodes c) @ unwrap fresh cs"
  "unwrap fresh (xs @ ys) = unwrap fresh xs @ unwrap fresh ys"
  by (simp_all add: unwrap_def)

lemma wrapper_step:
  "childNodes (svgWrapper (forEach_body c s)) =
     (if drawable c then
        (if valid_layer (toLowerCase (localName c)) c (layers s) then []
         else childNodes (svgWrapper s) @ [c])
      else childNodes (svgWrapper s))"
  by (cases "tagName c")
     (auto simp: forEach_body_def drawable_def Let_def register_layer_def flush_wrapper_def
        appendChild_def)

lemma forEach_order:
  assumes "pass_inv fresh oid placed rs s"
  shows "filter drawable (unwrap fresh (childNodes (svgRoot (forEach rs s)))) @
           childNodes (svgWrapper (forEach rs s)) =
         filter drawable (unwrap fresh placed) @ childNodes (svgWrapper s) @ filter drawable rs"
  using assms
proof (induction rs arbitrary: placed s)
  case Nil
  then show ?case by (simp add: pass_inv_def)
next
  case (Cons c rs)
  have c: "nid c < fresh"
    and w: "\<not> nid (svgWrapper s) < fresh"
    and pend: "filter drawable (childNodes (svgWrapper s)) = childNodes (svgWrapper s)"
    using Cons.prems by (auto simp: pass_inv_def)
  have step: "filter drawable (unwrap fresh (placed_by c s)) @
                childNodes (svgWrapper (forEach_body c s)) =
              childNodes (svgWrapper s) @ filter drawable [c]"
    using c w pend by (auto simp: placed_by_def wrapper_step drawable_def)
  have "filter drawable (unwrap fresh (childNodes (svgRoot (forEach (c # rs) s)))) @
          childNodes (svgWrapper (forEach (c # rs) s)) =
        filter drawable (unwrap fresh placed) @
          (filter drawable (unwrap fresh (placed_by c s)) @
             childNodes (svgWrapper (forEach_body c s))) @ filter drawable rs"
    using Cons.IH [OF pass_inv_step [OF Cons.prems]] by simp
  then show ?case unfolding step by simp
qed

lemma placed_origin_step:
  assumes "pass_inv fresh oid placed (c # rs) s"
    and "\<forall>x\<in>set placed. nid x < fresh \<longrightarrow> x \<in> orig" and "c \<in> orig"
  shows "\<forall>x\<in>set (placed @ placed_by c s). nid x < fresh \<longrightarrow> x \<in> orig"
  using assms by (auto simp: placed_by_def pass_inv_def)

lemma forEach_origin:
  assumes "pass_inv fresh oid placed rs s"
    and "\<forall>x\<in>set placed. nid x < fresh \<longrightarrow> x \<in> orig" and "set rs \<subseteq> orig"
  shows "\<forall>x\<in>set (childNodes (svgRoot (forEach rs s))). nid x < fresh \<longrightarrow> x \<in> orig"
  using assms
proof (induction rs arbitrary: placed s)
  case Nil
  then show ?case by (simp add: pass_inv_def)
next
  case (Cons c rs)
  show ?case
    using Cons.IH [OF pass_inv_step [OF Cons.prems(1)] placed_origin_step [OF Cons.prems(1,2)]]
      Cons.prems(3) by simp
qed

lemma append_wrapper_root:
  "childNodes (svgRoot (append_wrapper s)) =
     childNodes (svgRoot s) @ (if childNodes (svgWrapper s) = [] then [] else [svgWrapper s])"
  by (simp add: append_wrapper_def Let_def appendChild_def)

lemma reserved_wrapper_id [simp]: "reserved_id oid (wrapper_id oid n)"
  by (simp add: reserved_id_def wrapper_id_def wrapper_prefix_def)

lemma forEach_append: "forEach (ps @ rs) s = forEach rs (forEach ps s)"
  by (induction ps arbitrary: s) auto

lemma forEach_pass_induct:
  assumes "pass_inv fresh oid placed (ps @ rs) s" and "P placed (ps @ rs) s"
    and "\<And>placed c rs s. pass_inv fresh oid placed (c # rs) s \<Longrightarrow> P placed (c # rs) s \<Longrightarrow>
           P (placed @ placed_by c s) rs (forEach_body c s)"
  shows "\<exists>placed'. pass_inv fresh oid placed' rs (forEach ps s) \<and> P placed' rs (forEach ps s)"
  using assms(1,2)
proof (induction ps arbitrary: placed s)
  case Nil
  then show ?case by auto
next
  case (Cons c ps)
  have "pass_inv fresh oid (placed @ placed_by c s) (ps @ rs) (forEach_body c s)"
    using Cons.prems(1) by (simp add: pass_inv_step)
  moreover have "P (placed @ placed_by c s) (ps @ rs) (forEach_body c s)"
    using Cons.prems assms(3) [of placed c "ps @ rs" s] by simp
  ultimately show ?case using Cons.IH by simp
qed

lemma layers_step:
  "layers (forEach_body c s) =
     (if drawable c \<and> valid_layer (toLowerCase (localName c)) c (layers s) then
        ((if childNodes (svgWrapper s) = [] then layers s
          else (layers s)(the (getAttribute (svgWrapper s) ''id'') \<mapsto> wrapper_layer (svgWrapper s)))
        )(the (getAttribute c ''id'') \<mapsto> explicit_layer c)
      else layers s)"
  by (cases "tagName c")
     (auto simp: forEach_body_def drawable_def Let_def register_layer_def flush_wrapper_def
        wrapper_layer_def explicit_layer_def)

lemma layers_append_wrapper:
  "layers (append_wrapper s) =
     (if childNodes (svgWrapper s) = [] then layers s
      else (layers s)(the (getAttribute (svgWrapper s) ''id'') \<mapsto>
             (wrapper_layer (svgWrapper s))\<lparr>label := None\<rparr>))"
  by (simp add: append_wrapper_def Let_def wrapper_layer_def)

lemma pass_inv_wrapper_id:
  "pass_inv fresh oid placed rs s \<Longrightarrow>
   getAttribute (svgWrapper s) ''id'' = Some (wrapper_id oid (wrapperCount s))"
  by (simp add: pass_inv_def getAttribute_def)

lemma valid_layer_fresh_key:
  "valid_layer nm c ls \<Longrightarrow> ls (the (getAttribute c ''id'')) = None"
  by (auto simp: valid_layer_def in_object_def get_property_def split: option.splits if_splits)

lemma entry_kept_step:
  assumes "pass_inv fresh oid placed (c # rs) s" and "layers s i = Some l"
    and "\<not> reserved_id oid i"
  shows "layers (forEach_body c s) i = Some l"
proof -
  have "i \<noteq> wrapper_id oid (wrapperCount s)"
    using assms(3) by auto
  moreover have "i \<noteq> the (getAttribute c ''id'')"
    if "valid_layer (toLowerCase (localName c)) c (layers s)"
    using valid_layer_fresh_key [OF that] assms(2) by auto
  ultimately show ?thesis
    using assms(2) pass_inv_wrapper_id [OF assms(1)] by (auto simp: layers_step)
qed

lemma wrapper_attr_step:
  assumes "attributes (svgWrapper s) = [(''id'', wrapper_id (pid s) (wrapperCount s))]"
  shows "attributes (svgWrapper (forEach_body c s)) =
           [(''id'', wrapper_id (pid (forEach_body c s)) (wrapperCount (forEach_body c s)))]"
  using assms
  by (cases "tagName c")
     (auto simp: forEach_body_def Let_def register_layer_def flush_wrapper_def appendChild_def)

lemma wrapper_attr_forEach:
  "attributes (svgWrapper s) = [(''id'', wrapper_id (pid s) (wrapperCount s))] \<Longrightarrow>
   attributes (svgWrapper (forEach rs s)) =
     [(''id'', wrapper_id (pid (forEach rs s)) (wrapperCount (forEach rs s)))]"
  by (induction rs arbitrary: s) (auto simp: wrapper_attr_step)

lemma pid_step [simp]: "pid (forEach_body c s) = pid s"
  by (cases "tagName c")
     (auto simp: forEach_body_def Let_def register_layer_def flush_wrapper_def)

lemma pid_forEach [simp]: "pid (forEach rs s) = pid s"
  by (induction rs arbitrary: s) auto

lemma labels_step:
  assumes "\<forall>k l. layers s k = Some l \<longrightarrow> auto l \<longrightarrow> label l = Some (''#'' @ k)"
  shows "\<forall>k l. layers (forEach_body c s) k = Some l \<longrightarrow> auto l \<longrightarrow> label l = Some (''#'' @ k)"
  using assms by (auto simp: layers_step wrapper_layer_def explicit_layer_def)

lemma labels_forEach:
  "\<forall>k l. layers s k = Some l \<longrightarrow> auto l \<longrightarrow> label l = Some (''#'' @ k) \<Longrightarrow>
   \<forall>k l. layers (forEach rs s) k = Some l \<longrightarrow> auto l \<longrightarrow> label l = Some (''#'' @ k)"
proof (induction rs arbitrary: s)
  case Nil
  then show ?case by simp
next
  case (Cons c rs)
  from Cons.IH [OF labels_step [OF Cons.prems]] show ?case by simp
qed

lemma entry_kept:
  assumes "pass_inv fresh oid placed (ps @ rs) s" and "layers s i = Some l"
    and "\<not> reserved_id oid i"
  shows "layers (forEach ps s) i = Some l"
  using forEach_pass_induct [OF assms(1), where P = "\<lambda>placed rs s. layers s i = Some l"]
    assms(2,3) entry_kept_step by blast

lemma not_registered_step:
  assumes "pass_inv fresh oid placed (c # rs) s"
    and "\<forall>k l. layers s k = Some l \<longrightarrow> svgNode l \<noteq> x" and "x < fresh" and "nid c \<noteq> x"
  shows "\<forall>k l. layers (forEach_body c s) k = Some l \<longrightarrow> svgNode l \<noteq> x"
proof -
  have "nid (svgWrapper s) \<noteq> x"
    using assms(1,3) by (auto simp: pass_inv_def)
  then show ?thesis
    using assms(2,4) by (auto simp: layers_step wrapper_layer_def explicit_layer_def)
qed

lemma not_registered:
  assumes "pass_inv fresh oid placed (ps @ rs) s"
    and "\<forall>k l. layers s k = Some l \<longrightarrow> svgNode l \<noteq> x" and "x < fresh"
    and "x \<notin> nid ` set ps"
  shows "\<forall>k l. layers (forEach ps s) k = Some l \<longrightarrow> svgNode l \<noteq> x"
  using assms(1,2,4)
proof (induction ps arbitrary: placed s)
  case Nil
  then show ?case by simp
next
  case (Cons c ps)
  have "pass_inv fresh oid placed (c # (ps @ rs)) s" using Cons.prems(1) by simp
  from pass_inv_step [OF this] not_registered_step [OF this Cons.prems(2) assms(3)]
    Cons.IH Cons.prems(3)
  show ?case by auto
qed

lemma root_step:
  "pass_inv fresh oid placed (c # rs) s \<Longrightarrow>
   childNodes (svgRoot (forEach_body c s)) = placed @ placed_by c s @ rs"
  using pass_inv_step [of fresh oid placed c rs s] by (simp add: pass_inv_def)

lemma drawable_element: "drawable c \<Longrightarrow> tagName c = None \<Longrightarrow> False"
  by (simp add: drawable_def)

lemma wrapped_stays:
  assumes "pass_inv fresh oid placed (ps @ rs) s"
    and "x \<in> set (childNodes (svgWrapper s)) \<or>
         (\<exists>w\<in>set placed. fresh \<le> nid w \<and> x \<in> set (childNodes w))"
  shows "\<exists>placed'. pass_inv fresh oid placed' rs (forEach ps s) \<and>
           (x \<in> set (childNodes (svgWrapper (forEach ps s))) \<or>
            (\<exists>w\<in>set placed'. fresh \<le> nid w \<and> x \<in> set (childNodes w)))"
proof (rule forEach_pass_induct [OF assms(1), where P = "\<lambda>placed rs s.
    x \<in> set (childNodes (svgWrapper s)) \<or>
    (\<exists>w\<in>set placed. fresh \<le> nid w \<and> x \<in> set (childNodes w))"])
  show "x \<in> set (childNodes (svgWrapper s)) \<or>
        (\<exists>w\<in>set placed. fresh \<le> nid w \<and> x \<in> set (childNodes w))"
    by (rule assms(2))
next
  fix placed c rs and s :: "'a init_state"
  assume inv: "pass_inv fresh oid placed (c # rs) s"
    and h: "x \<in> set (childNodes (svgWrapper s)) \<or>
            (\<exists>w\<in>set placed. fresh \<le> nid w \<and> x \<in> set (childNodes w))"
  have w: "fresh \<le> nid (svgWrapper s)" using inv by (simp add: pass_inv_def)
  show "x \<in> set (childNodes (svgWrapper (forEach_body c s))) \<or>
        (\<exists>w\<in>set (placed @ placed_by c s). fresh \<le> nid w \<and> x \<in> set (childNodes w))"
    using h w by (auto simp: wrapper_step placed_by_def dest: drawable_element)
qed

lemma not_in_root:
  assumes "pass_inv fresh oid placed (ps @ rs) s"
    and "x \<notin> nid ` set placed" and "x \<notin> nid ` set ps" and "x < fresh"
  shows "\<exists>placed'. pass_inv fresh oid placed' rs (forEach ps s) \<and> x \<notin> nid ` set placed'"
  using assms(1,2,3)
proof (induction ps arbitrary: placed s)
  case Nil
  then show ?case by auto
next
  case (Cons c ps)
  have inv: "pass_inv fresh oid placed (c # (ps @ rs)) s" using Cons.prems(1) by simp
  have "fresh \<le> nid (svgWrapper s)" using inv by (simp add: pass_inv_def)
  then have "x \<notin> nid ` set (placed @ placed_by c s)"
    using Cons.prems(2,3) assms(4) by (auto simp: placed_by_def)
  from Cons.IH [OF pass_inv_step [OF inv] this] Cons.prems(3) show ?case by simp
qed

lemma drawable_group:
  "tagName b \<noteq> None \<Longrightarrow> toLowerCase (localName b) = ''g'' \<Longrightarrow> drawable b"
  by (simp add: drawable_def indexOf_mem DRAWABLE_TAGS_def)

lemma digit_char_inj: "a < 10 \<Longrightarrow> b < 10 \<Longrightarrow> digit_char a = digit_char b \<Longrightarrow> a = b"
proof -
  assume a: "a < 10" and b: "b < 10" and e: "digit_char a = digit_char b"
  from e have "(of_char (digit_char a) :: nat) = of_char (digit_char b)" by simp
  then have "(48 + a) mod 256 = (48 + b) mod 256" by (simp add: digit_char_def)
  with a b show "a = b" by simp
qed

lemma String_of_nat_nonempty: "String_of_nat n \<noteq> []"
  by (subst String_of_nat.simps) simp

lemma String_of_nat_inj: "String_of_nat m = String_of_nat n \<Longrightarrow> m = n"
proof (induction m arbitrary: n rule: String_of_nat.induct)
  case (1 m)
  show ?case
  proof (cases "m < 10")
    case True
    then have m: "String_of_nat m = [digit_char m]" by (subst String_of_nat.simps) simp
    show ?thesis
    proof (cases "n < 10")
      case n: True
      then have "String_of_nat n = [digit_char n]" by (subst String_of_nat.simps) simp
      with m "1.prems" True n show ?thesis by (auto dest: digit_char_inj)
    next
      case False
      then have "String_of_nat n = String_of_nat (n div 10) @ [digit_char (n mod 10)]"
        by (subst String_of_nat.simps) simp
      with m "1.prems" String_of_nat_nonempty [of "n div 10"] show ?thesis by simp
    qed
  next
    case False
    then have m: "String_of_nat m = String_of_nat (m div 10) @ [digit_char (m mod 10)]"
      by (subst String_of_nat.simps) simp
    show ?thesis
    proof (cases "n < 10")
      case True
      then have "String_of_nat n = [digit_char n]" by (subst String_of_nat.simps) simp
      with m "1.prems" String_of_nat_nonempty [of "m div 10"] show ?thesis by simp
    next
      case n: False
      then have "String_of_nat n = String_of_nat (n div 10) @ [digit_char (n mod 10)]"
        by (subst String_of_nat.simps) simp
      with m "1.prems" have e: "String_of_nat (m div 10) = String_of_nat (n div 10)"
        and d: "digit_char (m mod 10) = digit_char (n mod 10)" by simp_all
      from "1.IH" [OF False e] have "m div 10 = n div 10" .
      moreover have "m mod 10 = n mod 10"
        using digit_char_inj [of "m mod 10" "n mod 10"] d by simp
      ultimately show ?thesis by (metis div_mult_mod_eq)
    qed
  qed
qed

lemma wrapper_id_inj [simp]: "wrapper_id oid m = wrapper_id oid n \<longleftrightarrow> m = n"
  by (auto simp: wrapper_id_def dest: String_of_nat_inj)

lemma wrapperCount_step:
  "wrapperCount (forEach_body c s) =
     (if drawable c \<and> valid_layer (toLowerCase (localName c)) c (layers s) \<and>
         childNodes (svgWrapper s) \<noteq> []
      then wrapperCount s + 1 else wrapperCount s)"
  by (cases "tagName c")
     (auto simp: forEach_body_def drawable_def Let_def register_layer_def flush_wrapper_def)

lemma valid_layer_id:
  assumes "valid_layer nm c ls"
  obtains i where "getAttribute c ''id'' = Some i" "i \<noteq> []" "ls i = None"
    "i \<notin> set Object_prototype" "nm = ''g''"
  using assms
  by (auto simp: valid_layer_def in_object_def get_property_def split: option.splits if_splits)

lemma no_reserved_ids_Cons:
  "no_reserved_ids oid (c # cs) \<Longrightarrow> no_reserved_ids oid cs"
  "no_reserved_ids oid (c # cs) \<Longrightarrow> getAttribute c ''id'' = Some i \<Longrightarrow> \<not> reserved_id oid i"
  by (auto simp: no_reserved_ids_def)

lemma no_inherited_ids_Cons:
  "no_inherited_ids (c # cs) \<Longrightarrow> no_inherited_ids cs"
  by (simp add: no_inherited_ids_def)

lemma layers_inv_step:
  assumes inv: "pass_inv fresh oid placed (c # rs) s" and li: "layers_inv fresh oid s"
    and nr: "no_reserved_ids oid (c # rs)"
  shows "layers_inv fresh oid (forEach_body c s)"
proof (cases "drawable c \<and> valid_layer (toLowerCase (localName c)) c (layers s)")
  case False
  then show ?thesis using li by (auto simp: layers_inv_def layers_step wrapperCount_step)
next
  case True
  then obtain i where i: "getAttribute c ''id'' = Some i" "layers s i = None"
    by (auto elim: valid_layer_id)
  have free: "\<not> reserved_id oid i" using nr i(1) by (rule no_reserved_ids_Cons)
  then have iw: "i \<noteq> wrapper_id oid n" for n by auto
  have c: "nid c < fresh" and w: "nid (svgWrapper s) = fresh + wrapperCount s"
    using inv by (auto simp: pass_inv_def)
  have key: "getAttribute (svgWrapper s) ''id'' = Some (wrapper_id oid (wrapperCount s))"
    using inv by (rule pass_inv_wrapper_id)
  show ?thesis
  proof (cases "childNodes (svgWrapper s) = []")
    case e: True
    have l: "layers (forEach_body c s) = (layers s)(i \<mapsto> explicit_layer c)"
      and n: "wrapperCount (forEach_body c s) = wrapperCount s"
      using True e i by (simp_all add: layers_step wrapperCount_step)
    show ?thesis
      unfolding layers_inv_def l n using li free c iw
      by (auto simp: layers_inv_def explicit_layer_def)
  next
    case e: False
    have l: "layers (forEach_body c s) =
        (layers s)(wrapper_id oid (wrapperCount s) \<mapsto> wrapper_layer (svgWrapper s),
                   i \<mapsto> explicit_layer c)"
      and n: "wrapperCount (forEach_body c s) = Suc (wrapperCount s)"
      using True e i key by (simp_all add: layers_step wrapperCount_step)
    have k1: "\<forall>k l. ((layers s)(wrapper_id oid (wrapperCount s) \<mapsto> wrapper_layer (svgWrapper s),
                   i \<mapsto> explicit_layer c)) k = Some l \<longrightarrow>
         (if auto l then (\<exists>n<Suc (wrapperCount s). k = wrapper_id oid n \<and> svgNode l = fresh + n)
          else \<not> reserved_id oid k \<and> svgNode l < fresh)"
    proof (intro allI impI)
      fix k l
      assume h: "((layers s)(wrapper_id oid (wrapperCount s) \<mapsto> wrapper_layer (svgWrapper s),
                   i \<mapsto> explicit_layer c)) k = Some l"
      consider (new) "k = i" | (wrapper) "k \<noteq> i" "k = wrapper_id oid (wrapperCount s)"
        | (old) "k \<noteq> i" "k \<noteq> wrapper_id oid (wrapperCount s)" by blast
      then show "if auto l then (\<exists>n<Suc (wrapperCount s). k = wrapper_id oid n \<and> svgNode l = fresh + n)
          else \<not> reserved_id oid k \<and> svgNode l < fresh"
      proof cases
        case new
        with h have "l = explicit_layer c" by simp
        with new free c show ?thesis by (simp add: explicit_layer_def)
      next
        case wrapper
        with h have "l = wrapper_layer (svgWrapper s)" by simp
        with wrapper w show ?thesis by (auto simp: wrapper_layer_def)
      next
        case old
        with h have "layers s k = Some l" by simp
        with li have "if auto l then (\<exists>n<wrapperCount s. k = wrapper_id oid n \<and> svgNode l = fresh + n)
          else \<not> reserved_id oid k \<and> svgNode l < fresh"
          unfolding layers_inv_def by blast
        then show ?thesis by (auto simp: less_Suc_eq)
      qed
    qed
    have k2: "\<forall>n<Suc (wrapperCount s).
        \<exists>l. ((layers s)(wrapper_id oid (wrapperCount s) \<mapsto> wrapper_layer (svgWrapper s),
                   i \<mapsto> explicit_layer c)) (wrapper_id oid n) = Some l \<and> auto l \<and>
         svgNode l = fresh + n"
      using li w iw by (auto simp: layers_inv_def wrapper_layer_def less_Suc_eq)
    show ?thesis unfolding layers_inv_def l n using k1 k2 by blast
  qed
qed

lemma valid_layer_qualifies:
  assumes "no_reserved_ids oid (c # rs)"
    and "\<forall>i. \<not> reserved_id oid i \<longrightarrow> (ls i \<noteq> None \<longleftrightarrow> i \<in> set seen)"
    and "no_inherited_ids (c # rs)"
  shows "valid_layer (toLowerCase (localName c)) c ls \<longleftrightarrow> qualifies seen c"
proof (cases "getAttribute c ''id''")
  case None
  then show ?thesis by (simp add: valid_layer_def qualifies_def)
next
  case (Some i)
  then have "\<not> reserved_id oid i" using assms(1) by (simp add: no_reserved_ids_def)
  with assms(2) have l: "ls i \<noteq> None \<longleftrightarrow> i \<in> set seen" by blast
  have n: "toLowerCase (localName c) = ''g'' \<longrightarrow> i \<notin> set Object_prototype"
    using assms(3) Some by (simp add: no_inherited_ids_def)
  from l n Some show ?thesis
    by (auto simp: valid_layer_def qualifies_def in_object_def get_property_def
        split: option.splits)
qed

lemma runs_forEach:
  assumes "pass_inv fresh oid placed rs s" and "no_reserved_ids oid rs"
    and "\<forall>i. \<not> reserved_id oid i \<longrightarrow> (layers s i \<noteq> None \<longleftrightarrow> i \<in> set seen)"
    and "no_inherited_ids rs"
  shows "map childNodes (filter (\<lambda>c. fresh \<le> nid c)
           (childNodes (svgRoot (append_wrapper (forEach rs s))))) =
         map childNodes (filter (\<lambda>c. fresh \<le> nid c) placed) @
           filter (\<lambda>r. r \<noteq> []) (runs seen (childNodes (svgWrapper s)) rs)"
  using assms
proof (induction rs arbitrary: placed s seen)
  case Nil
  then show ?case by (auto simp: append_wrapper_root pass_inv_def)
next
  case (Cons c rs)
  let ?s = "forEach_body c s"
  let ?valid = "valid_layer (toLowerCase (localName c)) c (layers s)"
  have inv: "pass_inv fresh oid (placed @ placed_by c s) rs ?s"
    using Cons.prems(1) by (rule pass_inv_step)
  have nr: "no_reserved_ids oid rs"
    using Cons.prems(2) by (rule no_reserved_ids_Cons)
  have c: "nid c < fresh" and w: "fresh \<le> nid (svgWrapper s)"
    using Cons.prems(1) by (auto simp: pass_inv_def)
  have ni: "no_inherited_ids rs"
    using Cons.prems(4) by (rule no_inherited_ids_Cons)
  have q: "?valid \<longleftrightarrow> qualifies seen c"
    using Cons.prems(2,3,4) by (rule valid_layer_qualifies)
  show ?case
  proof (cases "drawable c")
    case False
    have l: "layers ?s = layers s" using False by (simp add: layers_step)
    have "map childNodes (filter (\<lambda>c. fresh \<le> nid c)
            (childNodes (svgRoot (append_wrapper (forEach rs ?s))))) =
          map childNodes (filter (\<lambda>c. fresh \<le> nid c) (placed @ placed_by c s)) @
            filter (\<lambda>r. r \<noteq> []) (runs seen (childNodes (svgWrapper ?s)) rs)"
      using Cons.IH [OF inv nr _ ni, of seen] Cons.prems(3) unfolding l by blast
    then show ?thesis using False c by (simp add: wrapper_step placed_by_def)
  next
    case True
    show ?thesis
    proof (cases ?valid)
      case v: False
      have l: "layers ?s = layers s" using v by (simp add: layers_step)
      have "map childNodes (filter (\<lambda>c. fresh \<le> nid c)
              (childNodes (svgRoot (append_wrapper (forEach rs ?s))))) =
            map childNodes (filter (\<lambda>c. fresh \<le> nid c) (placed @ placed_by c s)) @
              filter (\<lambda>r. r \<noteq> []) (runs seen (childNodes (svgWrapper ?s)) rs)"
        using Cons.IH [OF inv nr _ ni, of seen] Cons.prems(3) unfolding l by blast
      then show ?thesis using True v q by (simp add: wrapper_step placed_by_def)
    next
      case v: True
      then obtain i where i: "getAttribute c ''id'' = Some i"
        by (auto elim: valid_layer_id)
      have key: "getAttribute (svgWrapper s) ''id'' = Some (wrapper_id oid (wrapperCount s))"
        using Cons.prems(1) by (rule pass_inv_wrapper_id)
      have link: "\<forall>k. \<not> reserved_id oid k \<longrightarrow> (layers ?s k \<noteq> None \<longleftrightarrow> k \<in> set (i # seen))"
        using Cons.prems(3) True v i key by (auto simp: layers_step)
      have "map childNodes (filter (\<lambda>c. fresh \<le> nid c)
              (childNodes (svgRoot (append_wrapper (forEach rs ?s))))) =
            map childNodes (filter (\<lambda>c. fresh \<le> nid c) (placed @ placed_by c s)) @
              filter (\<lambda>r. r \<noteq> []) (runs (i # seen) (childNodes (svgWrapper ?s)) rs)"
        using Cons.IH [OF inv nr link ni] .
      moreover have "tagName c \<noteq> None" using True by (simp add: drawable_def)
      ultimately show ?thesis using True v q i c w by (simp add: wrapper_step placed_by_def)
    qed
  qed
qed

lemma final_origin:
  assumes "well_formed root fresh"
  shows "\<forall>x\<in>set (childNodes (svgRoot (init oid root fresh :: 'a presentation))).
           (nid x \<notin> set (map nid (childNodes root))) = (fresh \<le> nid x)"
proof -
  let ?start = "init_start oid root fresh :: 'a init_state"
  let ?after = "pass oid root fresh :: 'a init_state"
  have inv0: "pass_inv fresh oid [] (childNodes root) ?start"
    using assms by (rule pass_inv_start)
  obtain placed where inv: "pass_inv fresh oid placed [] ?after"
    using pass_inv_forEach [OF inv0] by (auto simp: pass_def)
  have orig: "\<forall>x\<in>set (childNodes (svgRoot ?after)). nid x < fresh \<longrightarrow> x \<in> set (childNodes root)"
    using forEach_origin [OF inv0, of "set (childNodes root)"] by (simp add: pass_def)
  have old: "\<forall>x\<in>set (childNodes root). nid x < fresh"
    using assms by (simp add: well_formed_def)
  have w: "fresh \<le> nid (svgWrapper ?after)"
    using inv by (auto simp: pass_inv_def)
  show ?thesis
  proof
    fix x
    assume "x \<in> set (childNodes (svgRoot (init oid root fresh :: 'a presentation)))"
    then have x: "x \<in> set (childNodes (svgRoot ?after)) \<or> x = svgWrapper ?after"
      by (auto simp: init_def presentation.truncate_def append_wrapper_root split: if_splits)
    show "(nid x \<notin> set (map nid (childNodes root))) = (fresh \<le> nid x)"
    proof
      assume "nid x \<notin> set (map nid (childNodes root))"
      with x orig w show "fresh \<le> nid x" by force
    next
      assume "fresh \<le> nid x"
      with old show "nid x \<notin> set (map nid (childNodes root))" by force
    qed
  qed
qed

lemma layers_inv_pass:
  assumes "well_formed root fresh" and "no_reserved_ids oid (childNodes root)"
  shows "\<exists>placed. pass_inv fresh oid placed [] (pass oid root fresh :: 'a init_state) \<and>
           layers_inv fresh oid (pass oid root fresh :: 'a init_state)"
proof -
  let ?start = "init_start oid root fresh :: 'a init_state"
  have inv0: "pass_inv fresh oid [] (childNodes root @ []) ?start"
    using pass_inv_start [OF assms(1)] by simp
  have "layers_inv fresh oid ?start"
    by (simp add: layers_inv_def init_start_def)
  then have p0: "layers_inv fresh oid ?start \<and> no_reserved_ids oid (childNodes root @ [])"
    using assms(2) by simp
  have "\<exists>placed. pass_inv fresh oid placed [] (forEach (childNodes root) ?start) \<and>
          (layers_inv fresh oid (forEach (childNodes root) ?start) \<and> no_reserved_ids oid [])"
  proof (rule forEach_pass_induct [OF inv0,
          where P = "\<lambda>placed rs s. layers_inv fresh oid s \<and> no_reserved_ids oid rs", OF p0])
    fix placed c rs and s :: "'a init_state"
    assume inv: "pass_inv fresh oid placed (c # rs) s"
      and p: "layers_inv fresh oid s \<and> no_reserved_ids oid (c # rs)"
    from p have "no_reserved_ids oid rs" by (simp add: no_reserved_ids_def)
    moreover from inv p have "layers_inv fresh oid (forEach_body c s)"
      by (simp add: layers_inv_step)
    ultimately show "layers_inv fresh oid (forEach_body c s) \<and> no_reserved_ids oid rs" by simp
  qed
  then show ?thesis by (auto simp: pass_def)
qed

lemma final_layers:
  assumes "pass_inv fresh oid placed [] s" and "layers_inv fresh oid s"
  defines "m \<equiv> (if childNodes (svgWrapper s) = [] then wrapperCount s else Suc (wrapperCount s))"
  shows "(\<forall>k l. layers (append_wrapper s) k = Some l \<longrightarrow>
            (if auto l then (\<exists>n<m. k = wrapper_id oid n \<and> svgNode l = fresh + n)
             else \<not> reserved_id oid k \<and> svgNode l < fresh)) \<and>
         (\<forall>n<m. \<exists>l. layers (append_wrapper s) (wrapper_id oid n) = Some l \<and> auto l \<and>
            svgNode l = fresh + n) \<and>
         (\<forall>w\<in>set (childNodes (svgRoot (append_wrapper s))). nid w < fresh + m)"
proof (cases "childNodes (svgWrapper s) = []")
  case True
  then have "layers (append_wrapper s) = layers s" "m = wrapperCount s"
    "childNodes (svgRoot (append_wrapper s)) = placed"
    using assms(1) by (simp_all add: layers_append_wrapper m_def append_wrapper_root pass_inv_def)
  then show ?thesis using assms(1,2) by (simp add: layers_inv_def pass_inv_def)
next
  case False
  have key: "getAttribute (svgWrapper s) ''id'' = Some (wrapper_id oid (wrapperCount s))"
    using assms(1) by (rule pass_inv_wrapper_id)
  have w: "nid (svgWrapper s) = fresh + wrapperCount s"
    using assms(1) by (simp add: pass_inv_def)
  have l: "layers (append_wrapper s) =
      (layers s)(wrapper_id oid (wrapperCount s) \<mapsto> (wrapper_layer (svgWrapper s))\<lparr>label := None\<rparr>)"
    and m: "m = Suc (wrapperCount s)"
    and r: "childNodes (svgRoot (append_wrapper s)) = placed @ [svgWrapper s]"
    using False key assms(1)
    by (simp_all add: layers_append_wrapper m_def append_wrapper_root pass_inv_def)
  have k1: "\<forall>k l. layers (append_wrapper s) k = Some l \<longrightarrow>
            (if auto l then (\<exists>n<m. k = wrapper_id oid n \<and> svgNode l = fresh + n)
             else \<not> reserved_id oid k \<and> svgNode l < fresh)"
  proof (intro allI impI)
    fix k l
    assume h: "layers (append_wrapper s) k = Some l"
    show "if auto l then (\<exists>n<m. k = wrapper_id oid n \<and> svgNode l = fresh + n)
             else \<not> reserved_id oid k \<and> svgNode l < fresh"
    proof (cases "k = wrapper_id oid (wrapperCount s)")
      case True
      with h l have "l = (wrapper_layer (svgWrapper s))\<lparr>label := None\<rparr>" by simp
      with True w m show ?thesis by (auto simp: wrapper_layer_def)
    next
      case False
      with h l have "layers s k = Some l" by simp
      with assms(2) have "if auto l then (\<exists>n<wrapperCount s. k = wrapper_id oid n \<and> svgNode l = fresh + n)
          else \<not> reserved_id oid k \<and> svgNode l < fresh"
        unfolding layers_inv_def by blast
      then show ?thesis unfolding m by (auto simp: less_Suc_eq)
    qed
  qed
  have k2: "\<forall>n<m. \<exists>l. layers (append_wrapper s) (wrapper_id oid n) = Some l \<and> auto l \<and>
            svgNode l = fresh + n"
    unfolding l m using assms(2) w by (auto simp: layers_inv_def wrapper_layer_def less_Suc_eq)
  have k3: "\<forall>w\<in>set (childNodes (svgRoot (append_wrapper s))). nid w < fresh + m"
    unfolding r m using assms(1) w by (auto simp: pass_inv_def)
  from k1 k2 k3 show ?thesis by blast
qed

lemma wrapper_id_plain: "wrapper_id oid n \<noteq> []" "wrapper_id oid n \<notin> set Object_prototype"
  by (simp_all add: wrapper_id_def Object_prototype_def)

lemma toLowerCase_g: "toLowerCase ''g'' = ''g''"
  by (simp add: toLowerCase_def toLowerCase_char_def)

lemma wrapper_layer_node:
  assumes "pass_inv fresh oid placed rs s"
  shows "drawable (svgWrapper s)" "layer_node (svgWrapper s)"
proof -
  have t: "tagName (svgWrapper s) = Some ''g''" "localName (svgWrapper s) = ''g''"
    using assms by (simp_all add: pass_inv_def)
  then show "drawable (svgWrapper s)"
    by (simp add: drawable_group toLowerCase_g)
  show "layer_node (svgWrapper s)"
    using t pass_inv_wrapper_id [OF assms]
    by (simp add: layer_node_def toLowerCase_g wrapper_id_plain)
qed

lemma wrapper_key_unused:
  assumes "layers_inv fresh oid s"
  shows "layers s (wrapper_id oid (wrapperCount s)) = None"
proof (cases "layers s (wrapper_id oid (wrapperCount s))")
  case None
  then show ?thesis .
next
  case (Some l)
  with assms have "if auto l
      then (\<exists>n<wrapperCount s. wrapper_id oid (wrapperCount s) = wrapper_id oid n \<and>
              svgNode l = fresh + n)
      else \<not> reserved_id oid (wrapper_id oid (wrapperCount s)) \<and> svgNode l < fresh"
    unfolding layers_inv_def by blast
  then have False by (auto split: if_splits)
  then show ?thesis ..
qed

lemma valid_layer_node:
  "drawable c \<Longrightarrow> valid_layer (toLowerCase (localName c)) c ls \<Longrightarrow> layer_node c"
  by (auto simp: layer_node_def drawable_def elim!: valid_layer_id)

lemma settled_snoc:
  assumes "settled cs" and "registered ls cs"
    and "tagName c \<noteq> None" and "drawable c \<longrightarrow> layer_node c"
    and "drawable c \<longrightarrow> (\<forall>i. getAttribute c ''id'' = Some i \<longrightarrow> ls i = None)"
  shows "settled (cs @ [c])"
proof (cases "drawable c")
  case False
  then show ?thesis using assms(1,3) by (simp add: settled_def)
next
  case True
  then obtain i where i: "getAttribute c ''id'' = Some i"
    using assms(4) by (auto simp: layer_node_def split: option.splits)
  with assms(5) True have "ls i = None" by simp
  then have "Some i \<notin> (\<lambda>c. getAttribute c ''id'') ` set (filter drawable cs)"
    using assms(2) by (auto simp: registered_def)
  then show ?thesis using assms(1,3,4) True i by (simp add: settled_def)
qed

lemma registered_snoc:
  "registered ls cs \<Longrightarrow> drawable c \<longrightarrow> (\<exists>i. getAttribute c ''id'' = Some i \<and> ls i \<noteq> None) \<Longrightarrow>
   registered ls (cs @ [c])"
  by (simp add: registered_def)

lemma registered_mono:
  "registered ls cs \<Longrightarrow> \<forall>k. ls k \<noteq> None \<longrightarrow> ls' k \<noteq> None \<Longrightarrow> registered ls' cs"
  unfolding registered_def by blast

lemma settled_step:
  assumes inv: "pass_inv fresh oid placed (c # rs) s" and li: "layers_inv fresh oid s"
    and nr: "no_reserved_ids oid (c # rs)"
    and st: "settled placed" and rg: "registered (layers s) placed"
  shows "settled (placed @ placed_by c s) \<and>
         registered (layers (forEach_body c s)) (placed @ placed_by c s)"
proof (cases "drawable c \<and> valid_layer (toLowerCase (localName c)) c (layers s)")
  case False
  then have l: "layers (forEach_body c s) = layers s" by (auto simp: layers_step)
  show ?thesis
  proof (cases "tagName c \<noteq> None \<and> \<not> drawable c")
    case True
    then have "placed_by c s = [c]" by (simp add: placed_by_def)
    moreover have "settled (placed @ [c])"
      by (rule settled_snoc [OF st rg]) (use True in auto)
    moreover have "registered (layers s) (placed @ [c])"
      by (rule registered_snoc [OF rg]) (use True in auto)
    ultimately show ?thesis using l by simp
  next
    case other: False
    with False have "placed_by c s = []" by (auto simp: placed_by_def)
    then show ?thesis using l st rg by simp
  qed
next
  case True
  then obtain i where i: "getAttribute c ''id'' = Some i" "layers s i = None"
    by (auto elim: valid_layer_id)
  have ln: "layer_node c" using True valid_layer_node by blast
  have tc: "tagName c \<noteq> None" using True by (simp add: drawable_def)
  have free: "\<not> reserved_id oid i" using nr i(1) by (rule no_reserved_ids_Cons)
  then have iw: "i \<noteq> wrapper_id oid (wrapperCount s)" by auto
  have key: "getAttribute (svgWrapper s) ''id'' = Some (wrapper_id oid (wrapperCount s))"
    using inv by (rule pass_inv_wrapper_id)
  have unused: "layers s (wrapper_id oid (wrapperCount s)) = None"
    using li by (rule wrapper_key_unused)
  show ?thesis
  proof (cases "childNodes (svgWrapper s) = []")
    case e: True
    have l: "layers (forEach_body c s) = (layers s)(i \<mapsto> explicit_layer c)"
      using True e i by (simp add: layers_step)
    have pb: "placed_by c s = [c]" using True e tc by (simp add: placed_by_def)
    have "settled (placed @ [c])"
      by (rule settled_snoc [OF st rg]) (use tc ln i in auto)
    moreover have "registered (layers (forEach_body c s)) placed"
      using rg unfolding l by (rule registered_mono) simp
    then have "registered (layers (forEach_body c s)) (placed @ [c])"
      by (rule registered_snoc) (use i l in auto)
    ultimately show ?thesis using pb by simp
  next
    case e: False
    let ?w = "svgWrapper s"
    let ?ls = "(layers s)(wrapper_id oid (wrapperCount s) \<mapsto> wrapper_layer ?w)"
    have l: "layers (forEach_body c s) = ?ls(i \<mapsto> explicit_layer c)"
      using True e i key by (simp add: layers_step)
    have pb: "placed_by c s = [?w, c]" using True e tc by (simp add: placed_by_def)
    have tw: "tagName ?w \<noteq> None" using inv by (simp add: pass_inv_def)
    have s1: "settled (placed @ [?w])"
      by (rule settled_snoc [OF st rg]) (use tw wrapper_layer_node(2) [OF inv] key unused in auto)
    have r0: "registered ?ls placed"
      using rg by (rule registered_mono) simp
    have r1: "registered ?ls (placed @ [?w])"
      by (rule registered_snoc [OF r0]) (use key in auto)
    have "settled ((placed @ [?w]) @ [c])"
      by (rule settled_snoc [OF s1 r1]) (use tc ln i iw in auto)
    moreover have "registered (layers (forEach_body c s)) (placed @ [?w])"
      using r1 unfolding l by (rule registered_mono) simp
    then have "registered (layers (forEach_body c s)) ((placed @ [?w]) @ [c])"
      by (rule registered_snoc) (use i l in auto)
    ultimately show ?thesis using pb by simp
  qed
qed

lemma settled_pass:
  assumes wf: "well_formed root fresh" and nr: "no_reserved_ids oid (childNodes root)"
  shows "settled (childNodes (svgRoot (init oid root fresh :: 'a presentation)))"
proof -
  let ?start = "init_start oid root fresh :: 'a init_state"
  let ?after = "pass oid root fresh :: 'a init_state"
  let ?P = "\<lambda>placed rs (s :: 'a init_state).
    layers_inv fresh oid s \<and> no_reserved_ids oid rs \<and> settled placed \<and>
    registered (layers s) placed"
  have inv0: "pass_inv fresh oid [] (childNodes root @ []) ?start"
    using pass_inv_start [OF wf] by simp
  have p0: "?P [] (childNodes root @ []) ?start"
    using nr by (simp add: layers_inv_def init_start_def settled_def registered_def)
  have "\<exists>placed. pass_inv fresh oid placed [] (forEach (childNodes root) ?start) \<and>
          ?P placed [] (forEach (childNodes root) ?start)"
  proof (rule forEach_pass_induct [OF inv0, where P = ?P, OF p0])
    fix placed c rs and s :: "'a init_state"
    assume inv: "pass_inv fresh oid placed (c # rs) s" and p: "?P placed (c # rs) s"
    from p have "no_reserved_ids oid rs" by (simp add: no_reserved_ids_def)
    moreover from inv p have "layers_inv fresh oid (forEach_body c s)"
      by (simp add: layers_inv_step)
    moreover have "settled (placed @ placed_by c s) \<and>
          registered (layers (forEach_body c s)) (placed @ placed_by c s)"
      using settled_step [of fresh oid placed c rs s] inv p by blast
    ultimately show "?P (placed @ placed_by c s) rs (forEach_body c s)" by simp
  qed
  then obtain placed where inv: "pass_inv fresh oid placed [] ?after"
    and li: "layers_inv fresh oid ?after" and st: "settled placed"
    and rg: "registered (layers ?after) placed"
    by (auto simp: pass_def)
  have root: "childNodes (svgRoot ?after) = placed"
    using inv by (simp add: pass_inv_def)
  have fin: "childNodes (svgRoot (init oid root fresh :: 'a presentation)) =
      placed @ (if childNodes (svgWrapper ?after) = [] then [] else [svgWrapper ?after])"
    by (simp add: init_def presentation.truncate_def append_wrapper_root root)
  have key: "getAttribute (svgWrapper ?after) ''id'' = Some (wrapper_id oid (wrapperCount ?after))"
    using inv by (rule pass_inv_wrapper_id)
  have tw: "tagName (svgWrapper ?after) \<noteq> None" using inv by (simp add: pass_inv_def)
  have "settled (placed @ [svgWrapper ?after])"
    by (rule settled_snoc [OF st rg])
       (use tw wrapper_layer_node(2) [OF inv] key wrapper_key_unused [OF li] in auto)
  with st show ?thesis unfolding fin by simp
qed

lemma forEach_body_settled:
  assumes "drawable c" and "layer_node c" and "getAttribute c ''id'' = Some i"
    and "layers s i = None" and "childNodes (svgWrapper s) = []"
  shows "forEach_body c s = s\<lparr>layers := (layers s)(i \<mapsto> explicit_layer c)\<rparr>"
proof -
  have "valid_layer (toLowerCase (localName c)) c (layers s)"
    using assms(2,3,4) by (simp add: valid_layer_def layer_node_def in_object_def get_property_def)
  then show ?thesis
    using assms(1,3,5)
    by (simp add: forEach_body_layer flush_wrapper_def register_layer_def explicit_layer_def)
qed

lemma settled_Cons:
  assumes "settled (c # cs)"
  shows "tagName c \<noteq> None" "drawable c \<Longrightarrow> layer_node c" "settled cs"
    "drawable c \<Longrightarrow> getAttribute c ''id'' \<notin> (\<lambda>c. getAttribute c ''id'') ` set (filter drawable cs)"
  using assms by (auto simp: settled_def split: if_splits)

lemma settled_forEach:
  assumes "settled cs" and "childNodes (svgWrapper s) = []"
    and "\<forall>c\<in>set cs. drawable c \<longrightarrow> (\<forall>i. getAttribute c ''id'' = Some i \<longrightarrow> layers s i = None)"
  shows "svgRoot (forEach cs s) = svgRoot s \<and> svgWrapper (forEach cs s) = svgWrapper s \<and>
         wrapperCount (forEach cs s) = wrapperCount s \<and>
         (\<forall>c\<in>set cs. drawable c \<longrightarrow>
            (\<exists>i. getAttribute c ''id'' = Some i \<and>
                 layers (forEach cs s) i = Some (explicit_layer c))) \<and>
         (\<forall>k. Some k \<notin> (\<lambda>c. getAttribute c ''id'') ` set (filter drawable cs) \<longrightarrow>
            layers (forEach cs s) k = layers s k)"
  using assms
proof (induction cs arbitrary: s)
  case Nil
  then show ?case by simp
next
  case (Cons c cs)
  note st = settled_Cons [OF Cons.prems(1)]
  show ?case
  proof (cases "drawable c")
    case False
    then have "forEach_body c s = s" using st(1) by (simp add: forEach_body_other)
    with Cons.IH [OF st(3) Cons.prems(2)] Cons.prems(3) False show ?thesis by simp
  next
    case True
    then obtain i where i: "getAttribute c ''id'' = Some i"
      using st(2) by (auto simp: layer_node_def split: option.splits)
    have none: "layers s i = None" using Cons.prems(3) True i by simp
    let ?s = "s\<lparr>layers := (layers s)(i \<mapsto> explicit_layer c)\<rparr>"
    have body: "forEach_body c s = ?s"
      using True st(2) [OF True] i none Cons.prems(2) by (rule forEach_body_settled)
    have new: "Some i \<notin> (\<lambda>c. getAttribute c ''id'') ` set (filter drawable cs)"
      using st(4) [OF True] i by simp
    have free: "\<forall>c\<in>set cs. drawable c \<longrightarrow>
        (\<forall>j. getAttribute c ''id'' = Some j \<longrightarrow> layers ?s j = None)"
    proof (intro ballI impI allI)
      fix x j
      assume x: "x \<in> set cs" "drawable x" "getAttribute x ''id'' = Some j"
      with new have "j \<noteq> i" by force
      with Cons.prems(3) x show "layers ?s j = None" by simp
    qed
    have ih: "svgRoot (forEach cs ?s) = svgRoot ?s \<and> svgWrapper (forEach cs ?s) = svgWrapper ?s \<and>
         wrapperCount (forEach cs ?s) = wrapperCount ?s \<and>
         (\<forall>c\<in>set cs. drawable c \<longrightarrow>
            (\<exists>i. getAttribute c ''id'' = Some i \<and>
                 layers (forEach cs ?s) i = Some (explicit_layer c))) \<and>
         (\<forall>k. Some k \<notin> (\<lambda>c. getAttribute c ''id'') ` set (filter drawable cs) \<longrightarrow>
            layers (forEach cs ?s) k = layers ?s k)"
      by (rule Cons.IH [OF st(3) _ free]) (simp add: Cons.prems(2))
    from ih new have "layers (forEach cs ?s) i = Some (explicit_layer c)" by simp
    with ih i True show ?thesis unfolding forEach.simps body by auto
  qed
qed

section \<open>The concrete scenario\<close>

text \<open>
  C3. For the tree \<open>scenario\<close> the pass leaves, in tree order, a wrapper with the rect,
  the group L1, and a second wrapper with the circle and the second group of id L1; the
  text node is gone; the layer map has exactly three entries: the two wrappers (the
  last without label) and L1.
\<close>

theorem init_scenario:
  "childNodes (svgRoot (init oid scenario 6 :: 'a presentation)) =
     [Node 6 (Some ''g'') ''g'' None [(''id'', wrapper_id oid 0)]
        [Node 2 (Some ''rect'') ''rect'' None [] []],
      Node 3 (Some ''g'') ''g'' None [(''id'', ''L1'')] [],
      Node 7 (Some ''g'') ''g'' None [(''id'', wrapper_id oid 1)]
        [Node 4 (Some ''circle'') ''circle'' None [] [],
         Node 5 (Some ''g'') ''g'' None [(''id'', ''L1'')] []]] \<and>
   dom (layers (init oid scenario 6 :: 'a presentation)) =
     {wrapper_id oid 0, ''L1'', wrapper_id oid 1} \<and>
   card (dom (layers (init oid scenario 6 :: 'a presentation))) = 3 \<and>
   layers (init oid scenario 6 :: 'a presentation) (wrapper_id oid 0) =
     Some \<lparr>auto = True, selected = True, label = Some (''#'' @ wrapper_id oid 0), svgNode = 6\<rparr> \<and>
   layers (init oid scenario 6 :: 'a presentation) ''L1'' =
     Some \<lparr>auto = False, selected = True, label = Some ''#L1'', svgNode = 3\<rparr> \<and>
   layers (init oid scenario 6 :: 'a presentation) (wrapper_id oid 1) =
     Some \<lparr>auto = True, selected = True, label = None, svgNode = 7\<rparr>"
proof -
  have w: "wrapper_id oid 0 \<noteq> wrapper_id oid 1" "wrapper_id oid 1 \<noteq> wrapper_id oid 0"
    "wrapper_id oid (Suc 0) \<noteq> wrapper_id oid 0" "wrapper_id oid 0 \<noteq> wrapper_id oid (Suc 0)"
    by (simp_all add: wrapper_id_def String_of_nat.simps [of 0] String_of_nat.simps [of 1]
        String_of_nat.simps [of "Suc 0"] digit_char_def)
  have l: "wrapper_id oid n \<noteq> ''L1''" "''L1'' \<noteq> wrapper_id oid n" for n
    by (simp_all add: wrapper_id_def)
  have ls: "layers (init oid scenario 6 :: 'a presentation) =
      [wrapper_id oid 0 \<mapsto>
         \<lparr>auto = True, selected = True, label = Some (''#'' @ wrapper_id oid 0), svgNode = 6\<rparr>,
       ''L1'' \<mapsto> \<lparr>auto = False, selected = True, label = Some ''#L1'', svgNode = 3\<rparr>,
       wrapper_id oid 1 \<mapsto> \<lparr>auto = True, selected = True, label = None, svgNode = 7\<rparr>]"
    by (simp add: scenario_eval_defs scenario_def w l)
  have t: "childNodes (svgRoot (init oid scenario 6 :: 'a presentation)) =
     [Node 6 (Some ''g'') ''g'' None [(''id'', wrapper_id oid 0)]
        [Node 2 (Some ''rect'') ''rect'' None [] []],
      Node 3 (Some ''g'') ''g'' None [(''id'', ''L1'')] [],
      Node 7 (Some ''g'') ''g'' None [(''id'', wrapper_id oid 1)]
        [Node 4 (Some ''circle'') ''circle'' None [] [],
         Node 5 (Some ''g'') ''g'' None [(''id'', ''L1'')] []]]"
    by (simp add: scenario_eval_defs scenario_def w l)
  show ?thesis
    unfolding ls t using w l by auto
qed

section \<open>The order of the drawable nodes\<close>

text \<open>
  C4. After the pass, the contents of the children of the root, one after the other in
  tree order, hold the drawable children of the root in their original order: the pass
  groups them and does not exchange any two of them.
\<close>

theorem init_preserves_order:
  assumes "well_formed root fresh"
  shows "filter drawable (concat (map (layer_contents root)
           (childNodes (svgRoot (init oid root fresh :: 'a presentation))))) =
         filter drawable (childNodes root)"
proof -
  let ?start = "init_start oid root fresh :: 'a init_state"
  let ?s = "pass oid root fresh :: 'a init_state"
  have inv0: "pass_inv fresh oid [] (childNodes root) ?start"
    using assms by (rule pass_inv_start)
  obtain placed where inv: "pass_inv fresh oid placed [] ?s"
    using pass_inv_forEach [OF inv0] by (auto simp: pass_def)
  have ord: "filter drawable (unwrap fresh (childNodes (svgRoot ?s))) @ childNodes (svgWrapper ?s) =
             filter drawable (childNodes root)"
    using forEach_order [OF inv0] by (simp add: pass_def init_start_def)
  have orig: "\<forall>x\<in>set (childNodes (svgRoot ?s)). nid x < fresh \<longrightarrow> x \<in> set (childNodes root)"
    using forEach_origin [OF inv0, of "set (childNodes root)"] by (simp add: pass_def)
  have old: "\<forall>x\<in>set (childNodes root). nid x < fresh"
    using assms by (simp add: well_formed_def)
  have same: "concat (map (layer_contents root) cs) = unwrap fresh cs"
    if "\<forall>x\<in>set cs. nid x < fresh \<longrightarrow> x \<in> set (childNodes root)" for cs
    using that old by (induction cs) (auto simp: layer_contents_def)
  have w: "\<not> nid (svgWrapper ?s) < fresh"
    and pend: "filter drawable (childNodes (svgWrapper ?s)) = childNodes (svgWrapper ?s)"
    using inv by (auto simp: pass_inv_def)
  have fin: "\<forall>x\<in>set (childNodes (svgRoot (append_wrapper ?s))).
               nid x < fresh \<longrightarrow> x \<in> set (childNodes root)"
    using orig w by (auto simp: append_wrapper_root)
  have "filter drawable (unwrap fresh (childNodes (svgRoot (append_wrapper ?s)))) =
        filter drawable (unwrap fresh (childNodes (svgRoot ?s))) @ childNodes (svgWrapper ?s)"
    using w pend by (simp add: append_wrapper_root)
  with ord same [OF fin] show ?thesis
    by (simp add: init_def presentation.truncate_def)
qed

theorem init_preserves_order_witness:
  "well_formed scenario 6 \<and>
   filter drawable (concat (map (layer_contents scenario)
     (childNodes (svgRoot (init 7 scenario 6 :: unit presentation))))) =
   [Node 2 (Some ''rect'') ''rect'' None [] [],
    Node 3 (Some ''g'') ''g'' None [(''id'', ''L1'')] [],
    Node 4 (Some ''circle'') ''circle'' None [] [],
    Node 5 (Some ''g'') ''g'' None [(''id'', ''L1'')] []]"
proof -
  have h: "well_formed scenario 6"
    by (simp add: well_formed_def scenario_def)
  have r: "filter drawable (childNodes scenario) =
    [Node 2 (Some ''rect'') ''rect'' None [] [],
     Node 3 (Some ''g'') ''g'' None [(''id'', ''L1'')] [],
     Node 4 (Some ''circle'') ''circle'' None [] [],
     Node 5 (Some ''g'') ''g'' None [(''id'', ''L1'')] []]"
    by (simp add: scenario_def drawable_def DRAWABLE_TAGS_def toLowerCase_def
        toLowerCase_char_def)
  show ?thesis
    using h init_preserves_order [OF h, of 7, where ?'a = unit] unfolding r by simp
qed

section \<open>A second group with the id of a layer\<close>

text \<open>
  C6, as stated: the entry of the id stays the entry of the first group. In
  \<open>clash_duplicate\<close> the two groups have the id of the wrapper that takes the second
  group; the first group is registered under the id, and at the end of the pass the
  entry of the id is that of the wrapper.
\<close>

theorem duplicate_entry_overwritten:
  "well_formed clash_duplicate 3 \<and>
   layers (forEach [Node 1 (Some ''g'') ''g'' None [(''id'', ''sozi-wrapper-1-0'')] []]
      (init_start 1 clash_duplicate 3 :: unit init_state)) ''sozi-wrapper-1-0'' =
     Some \<lparr>auto = False, selected = True, label = Some ''#sozi-wrapper-1-0'', svgNode = 1\<rparr> \<and>
   layers (init 1 clash_duplicate 3 :: unit presentation) ''sozi-wrapper-1-0'' =
     Some \<lparr>auto = True, selected = True, label = None, svgNode = 3\<rparr>"
  by code_simp

text \<open>
  C6, amended: let a group \<open>b\<close> among the children of the root carry an id \<open>i\<close> that is
  not reserved for wrappers and that, when the loop comes to \<open>b\<close>, is registered with
  the explicit layer \<open>l\<close>. Then after the pass the entry of \<open>i\<close> is still \<open>l\<close>, no
  entry of the layer map refers to \<open>b\<close>, and \<open>b\<close> is no longer a child of the root but a
  child of a wrapper that is one.
\<close>

theorem duplicate_group_is_wrapped:
  assumes wf: "well_formed root fresh"
    and split: "childNodes root = ps @ b # rs"
    and g: "tagName b \<noteq> None" "toLowerCase (localName b) = ''g''"
    and idb: "getAttribute b ''id'' = Some i"
    and reg: "layers (forEach ps (init_start oid root fresh :: 'a init_state)) i = Some l"
      "\<not> auto l"
    and free: "\<not> reserved_id oid i"
  shows "layers (init oid root fresh :: 'a presentation) i = Some l \<and>
         (\<forall>k l'. layers (init oid root fresh :: 'a presentation) k = Some l' \<longrightarrow>
            svgNode l' \<noteq> nid b) \<and>
         b \<notin> set (childNodes (svgRoot (init oid root fresh :: 'a presentation))) \<and>
         (\<exists>w\<in>set (childNodes (svgRoot (init oid root fresh :: 'a presentation))).
            nid w \<notin> set (map nid (childNodes root)) \<and> b \<in> set (childNodes w))"
proof -
  let ?start = "init_start oid root fresh :: 'a init_state"
  let ?before = "forEach ps ?start"
  let ?moved = "forEach_body b ?before"
  let ?after = "forEach rs ?moved"
  let ?p = "init oid root fresh :: 'a presentation"
  have old: "\<forall>c\<in>set (childNodes root). nid c < fresh"
    and dist: "distinct (map nid (ps @ b # rs))"
    using wf split by (simp_all add: well_formed_def)
  have nb: "nid b < fresh" "nid b \<notin> nid ` set ps" "nid b \<notin> nid ` set rs"
    using old dist split by auto
  have inv0: "pass_inv fresh oid [] (ps @ b # rs) ?start"
    using pass_inv_start [OF wf] split by simp
  obtain placed where inv1: "pass_inv fresh oid placed (b # rs) ?before"
    using forEach_pass_induct [OF inv0, where P = "\<lambda>_ _ _. True"] by auto
  have db: "drawable b" using g by (rule drawable_group)
  have nv: "\<not> valid_layer (toLowerCase (localName b)) b (layers ?before)"
    using idb reg(1) by (simp add: valid_layer_def in_object_def get_property_def)
  have moved: "?moved = ?before\<lparr>svgRoot := removeChild (svgRoot ?before) b,
                                 svgWrapper := appendChild (svgWrapper ?before) b\<rparr>"
    using db nv by (rule forEach_body_wrap)
  have pb: "placed_by b ?before = []"
    using db nv by (simp add: placed_by_def)
  have inv2: "pass_inv fresh oid placed (rs @ []) ?moved"
    using pass_inv_step [OF inv1] pb by simp
  have run: "pass oid root fresh = ?after"
    by (simp add: pass_def split forEach_append)
  have np: "nid b \<notin> nid ` set placed"
    using inv1 by (auto simp: pass_inv_def)
  \<comment> \<open>the entry of the id\<close>
  have "layers ?moved i = Some l" using reg(1) by (simp add: moved)
  from entry_kept [OF inv2 this free] have kept: "layers ?after i = Some l" .
  obtain placed' where inv3: "pass_inv fresh oid placed' [] ?after"
    and inside: "b \<in> set (childNodes (svgWrapper ?after)) \<or>
                 (\<exists>w\<in>set placed'. fresh \<le> nid w \<and> b \<in> set (childNodes w))"
    using wrapped_stays [OF inv2, of b] by (auto simp: moved appendChild_def)
  have root3: "childNodes (svgRoot ?after) = placed'"
    and w3: "nid (svgWrapper ?after) = fresh + wrapperCount ?after"
    using inv3 by (simp_all add: pass_inv_def)
  have key: "getAttribute (svgWrapper ?after) ''id'' = Some (wrapper_id oid (wrapperCount ?after))"
    using inv3 by (rule pass_inv_wrapper_id)
  have "i \<noteq> wrapper_id oid (wrapperCount ?after)" using free by auto
  then have c1: "layers ?p i = Some l"
    using kept key by (simp add: init_def presentation.truncate_def run layers_append_wrapper)
  \<comment> \<open>no entry refers to the node\<close>
  have "\<forall>k l. layers ?start k = Some l \<longrightarrow> svgNode l \<noteq> nid b"
    by (simp add: init_start_def)
  from not_registered [OF inv0 this nb(1,2)]
  have "\<forall>k l. layers ?moved k = Some l \<longrightarrow> svgNode l \<noteq> nid b" by (simp add: moved)
  from not_registered [OF inv2 this nb(1,3)]
  have "\<forall>k l. layers ?after k = Some l \<longrightarrow> svgNode l \<noteq> nid b" .
  then have c2: "\<forall>k l'. layers ?p k = Some l' \<longrightarrow> svgNode l' \<noteq> nid b"
    using w3 nb(1)
    by (auto simp: init_def presentation.truncate_def run layers_append_wrapper wrapper_layer_def
        split: if_splits)
  \<comment> \<open>the node is below a wrapper\<close>
  have fin: "childNodes (svgRoot ?p) =
      placed' @ (if childNodes (svgWrapper ?after) = [] then [] else [svgWrapper ?after])"
    by (simp add: init_def presentation.truncate_def run append_wrapper_root root3)
  obtain placed'' where "pass_inv fresh oid placed'' [] ?after" "nid b \<notin> nid ` set placed''"
    using not_in_root [OF inv2 np nb(3,1)] by auto
  then have "nid b \<notin> nid ` set placed'"
    using root3 by (simp add: pass_inv_def)
  then have c3: "b \<notin> set (childNodes (svgRoot ?p))"
    using w3 nb(1) unfolding fin by auto
  have "\<exists>w\<in>set (childNodes (svgRoot ?p)). fresh \<le> nid w \<and> b \<in> set (childNodes w)"
    using inside w3 unfolding fin by auto
  then obtain w where w: "w \<in> set (childNodes (svgRoot ?p))" "fresh \<le> nid w"
    "b \<in> set (childNodes w)" by auto
  have "nid w \<notin> set (map nid (childNodes root))"
  proof
    assume "nid w \<in> set (map nid (childNodes root))"
    then obtain c where "c \<in> set (childNodes root)" "nid c = nid w" by auto
    with old w(2) show False by force
  qed
  with w have c4: "\<exists>w\<in>set (childNodes (svgRoot ?p)).
      nid w \<notin> set (map nid (childNodes root)) \<and> b \<in> set (childNodes w)"
    by blast
  from c1 c2 c3 c4 show ?thesis by simp
qed

theorem duplicate_group_is_wrapped_witness:
  "well_formed scenario 6 \<and>
   layers (init 7 scenario 6 :: unit presentation) ''L1'' =
     Some \<lparr>auto = False, selected = True, label = Some ''#L1'', svgNode = 3\<rparr> \<and>
   Node 5 (Some ''g'') ''g'' None [(''id'', ''L1'')] [] \<notin>
     set (childNodes (svgRoot (init 7 scenario 6 :: unit presentation))) \<and>
   (\<exists>w\<in>set (childNodes (svgRoot (init 7 scenario 6 :: unit presentation))).
      nid w \<notin> set (map nid (childNodes scenario)) \<and>
      Node 5 (Some ''g'') ''g'' None [(''id'', ''L1'')] [] \<in> set (childNodes w))"
proof -
  let ?b = "Node 5 (Some ''g'') ''g'' None [(''id'', ''L1'')] []"
  let ?ps = "[Node 1 None [] (Some '' '') [] [],
      Node 2 (Some ''rect'') ''rect'' None [] [],
      Node 3 (Some ''g'') ''g'' None [(''id'', ''L1'')] [],
      Node 4 (Some ''circle'') ''circle'' None [] []]"
  let ?l = "\<lparr>auto = False, selected = True, label = Some ''#L1'', svgNode = 3\<rparr>"
  have wf: "well_formed scenario 6"
    by (simp add: well_formed_def scenario_def)
  have split: "childNodes scenario = ?ps @ ?b # []"
    by (simp add: scenario_def)
  have g: "tagName ?b \<noteq> None" "toLowerCase (localName ?b) = ''g''"
    by (simp_all add: toLowerCase_def toLowerCase_char_def)
  have idb: "getAttribute ?b ''id'' = Some ''L1''"
    by (simp add: getAttribute_def)
  have reg: "layers (forEach ?ps (init_start 7 scenario 6 :: unit init_state)) ''L1'' = Some ?l"
    by code_simp
  have ex: "\<not> auto ?l" by simp
  have free: "\<not> reserved_id 7 ''L1''"
    by code_simp
  show ?thesis
    using wf duplicate_group_is_wrapped [OF wf split g idb reg ex free] by simp
qed

section \<open>One wrapper for each run\<close>

text \<open>
  A group whose id is a name inherited from \<^verbatim>\<open>Object.prototype\<close> ends a run as the
  comment of lines 80 to 83 has it (it has an id, met for the first time), but the test
  of line 84 finds the name \<^verbatim>\<open>in\<close> the layer map, so the pass keeps the group in the run:
  in \<open>inherited_group\<close> there are two runs and one wrapper. The property proved in this
  section leaves such groups out.
\<close>

lemma inherited_id_stays_in_the_run:
  "filter (\<lambda>r. r \<noteq> []) (runs [] [] (childNodes inherited_group)) =
     [[Node 1 (Some ''rect'') ''rect'' None [] []],
      [Node 3 (Some ''circle'') ''circle'' None [] []]] \<and>
   childNodes (svgRoot (init 1 inherited_group 4 :: unit presentation)) =
     [Node 4 (Some ''g'') ''g'' None [(''id'', ''sozi-wrapper-1-0'')]
        [Node 1 (Some ''rect'') ''rect'' None [] [],
         Node 2 (Some ''g'') ''g'' None [(''id'', ''constructor'')] [],
         Node 3 (Some ''circle'') ''circle'' None [] []]] \<and>
   \<not> no_inherited_ids (childNodes inherited_group)"
  by code_simp

text \<open>
  C5, as stated: each run is in one wrapper that is registered as one auto layer. In
  \<open>clash_run\<close> the group that ends the run of the rect has the id of the wrapper; the
  wrapper is put into the tree and registered, then the group is registered under the
  same id: the layer map has this one entry, and it is not an auto layer.
\<close>

theorem run_wrapper_entry_overwritten:
  "well_formed clash_run 3 \<and>
   childNodes (svgRoot (init 1 clash_run 3 :: unit presentation)) =
     [Node 3 (Some ''g'') ''g'' None [(''id'', ''sozi-wrapper-1-0'')]
        [Node 1 (Some ''rect'') ''rect'' None [] []],
      Node 2 (Some ''g'') ''g'' None [(''id'', ''sozi-wrapper-1-0'')] []] \<and>
   dom (layers (init 1 clash_run 3 :: unit presentation)) = {''sozi-wrapper-1-0''} \<and>
   layers (init 1 clash_run 3 :: unit presentation) ''sozi-wrapper-1-0'' =
     Some \<lparr>auto = False, selected = True, label = Some ''#sozi-wrapper-1-0'', svgNode = 2\<rparr>"
proof -
  have w: "wrapper_id 1 0 = ''sozi-wrapper-1-0''" "wrapper_id (Suc 0) 0 = ''sozi-wrapper-1-0''"
    by code_simp+
  have wf: "well_formed clash_run 3"
    by (simp add: well_formed_def clash_run_def)
  have t: "childNodes (svgRoot (init 1 clash_run 3 :: unit presentation)) =
     [Node 3 (Some ''g'') ''g'' None [(''id'', ''sozi-wrapper-1-0'')]
        [Node 1 (Some ''rect'') ''rect'' None [] []],
      Node 2 (Some ''g'') ''g'' None [(''id'', ''sozi-wrapper-1-0'')] []]"
    by code_simp
  have ls: "layers (init 1 clash_run 3 :: unit presentation) =
     [''sozi-wrapper-1-0'' \<mapsto>
        \<lparr>auto = False, selected = True, label = Some ''#sozi-wrapper-1-0'', svgNode = 2\<rparr>]"
    by (simp add: scenario_eval_defs clash_run_def w)
  show ?thesis
    unfolding ls t using wf by simp
qed

text \<open>
  C5, amended: when no child of the root has a reserved id, and no group among them has
  for id a name inherited from \<^verbatim>\<open>Object.prototype\<close>, the new children of the root after
  the pass (the wrappers) hold, in tree order, exactly the runs that are not empty, one
  wrapper for each run; and for each wrapper the layer map has exactly one entry that
  refers to it, an auto layer. A child ends a run when it is a group with an id that is
  not empty and was not met before, as \<open>qualifies\<close> has it.
\<close>

theorem runs_are_wrapped:
  assumes wf: "well_formed root fresh" and nr: "no_reserved_ids oid (childNodes root)"
    and ni: "no_inherited_ids (childNodes root)"
  shows "map childNodes (filter (\<lambda>c. nid c \<notin> set (map nid (childNodes root)))
           (childNodes (svgRoot (init oid root fresh :: 'a presentation)))) =
         filter (\<lambda>r. r \<noteq> []) (runs [] [] (childNodes root)) \<and>
         (\<forall>w\<in>set (childNodes (svgRoot (init oid root fresh :: 'a presentation))).
            nid w \<notin> set (map nid (childNodes root)) \<longrightarrow>
            (\<exists>k l. layers (init oid root fresh :: 'a presentation) k = Some l \<and> auto l \<and>
               svgNode l = nid w \<and>
               (\<forall>k' l'. layers (init oid root fresh :: 'a presentation) k' = Some l' \<and>
                  svgNode l' = nid w \<longrightarrow> k' = k)))"
proof
  let ?p = "init oid root fresh :: 'a presentation"
  let ?start = "init_start oid root fresh :: 'a init_state"
  let ?after = "pass oid root fresh :: 'a init_state"
  have inv0: "pass_inv fresh oid [] (childNodes root) ?start"
    using wf by (rule pass_inv_start)
  have link: "\<forall>i. \<not> reserved_id oid i \<longrightarrow> (layers ?start i \<noteq> None \<longleftrightarrow> i \<in> set [])"
    by (simp add: init_start_def)
  have empty: "childNodes (svgWrapper ?start) = []"
    by (simp add: init_start_def)
  have p: "layers ?p = layers (append_wrapper ?after)"
    "svgRoot ?p = svgRoot (append_wrapper ?after)"
    by (simp_all add: init_def presentation.truncate_def)
  have "map childNodes (filter (\<lambda>c. fresh \<le> nid c) (childNodes (svgRoot ?p))) =
        filter (\<lambda>r. r \<noteq> []) (runs [] [] (childNodes root))"
    using runs_forEach [OF inv0 nr link ni] unfolding empty p pass_def by simp
  moreover have "filter (\<lambda>c. nid c \<notin> set (map nid (childNodes root))) (childNodes (svgRoot ?p)) =
                 filter (\<lambda>c. fresh \<le> nid c) (childNodes (svgRoot ?p))"
  proof (rule filter_cong [OF refl])
    fix x
    assume "x \<in> set (childNodes (svgRoot ?p))"
    with final_origin [OF wf, of oid, where ?'a = 'a]
    show "(nid x \<notin> set (map nid (childNodes root))) = (fresh \<le> nid x)" by (rule bspec)
  qed
  ultimately show "map childNodes (filter (\<lambda>c. nid c \<notin> set (map nid (childNodes root)))
           (childNodes (svgRoot ?p))) = filter (\<lambda>r. r \<noteq> []) (runs [] [] (childNodes root))"
    by simp
  obtain placed where inv: "pass_inv fresh oid placed [] ?after"
    and li: "layers_inv fresh oid ?after"
    using layers_inv_pass [OF wf nr, where ?'a = 'a] by auto
  define m where "m = (if childNodes (svgWrapper ?after) = [] then wrapperCount ?after
                       else Suc (wrapperCount ?after))"
  have fl: "(\<forall>k l. layers ?p k = Some l \<longrightarrow>
            (if auto l then (\<exists>n<m. k = wrapper_id oid n \<and> svgNode l = fresh + n)
             else \<not> reserved_id oid k \<and> svgNode l < fresh)) \<and>
         (\<forall>n<m. \<exists>l. layers ?p (wrapper_id oid n) = Some l \<and> auto l \<and>
            svgNode l = fresh + n) \<and>
         (\<forall>w\<in>set (childNodes (svgRoot ?p)). nid w < fresh + m)"
    unfolding p m_def by (rule final_layers [OF inv li])
  have k1: "\<forall>k l. layers ?p k = Some l \<longrightarrow>
            (if auto l then (\<exists>n<m. k = wrapper_id oid n \<and> svgNode l = fresh + n)
             else \<not> reserved_id oid k \<and> svgNode l < fresh)"
    and k2: "\<forall>n<m. \<exists>l. layers ?p (wrapper_id oid n) = Some l \<and> auto l \<and> svgNode l = fresh + n"
    and k3: "\<forall>w\<in>set (childNodes (svgRoot ?p)). nid w < fresh + m"
    using fl by (rule conjunct1, rule conjunct2 [THEN conjunct1], rule conjunct2 [THEN conjunct2])
  show "\<forall>w\<in>set (childNodes (svgRoot ?p)).
            nid w \<notin> set (map nid (childNodes root)) \<longrightarrow>
            (\<exists>k l. layers ?p k = Some l \<and> auto l \<and> svgNode l = nid w \<and>
               (\<forall>k' l'. layers ?p k' = Some l' \<and> svgNode l' = nid w \<longrightarrow> k' = k))"
  proof (intro ballI impI)
    fix w
    assume w: "w \<in> set (childNodes (svgRoot ?p))"
      and new: "nid w \<notin> set (map nid (childNodes root))"
    from final_origin [OF wf, of oid, where ?'a = 'a] w new have "fresh \<le> nid w" by blast
    moreover from k3 w have "nid w < fresh + m" by blast
    ultimately have "nid w - fresh < m" "nid w = fresh + (nid w - fresh)" by simp_all
    then obtain n where n: "n < m" "nid w = fresh + n" by blast
    from k2 n(1) obtain l where l: "layers ?p (wrapper_id oid n) = Some l" "auto l"
      "svgNode l = fresh + n" by blast
    have "k' = wrapper_id oid n" if "layers ?p k' = Some l'" "svgNode l' = nid w" for k' l'
    proof -
      from k1 that(1) have "if auto l' then (\<exists>n<m. k' = wrapper_id oid n \<and> svgNode l' = fresh + n)
             else \<not> reserved_id oid k' \<and> svgNode l' < fresh" by blast
      with that(2) n(2) show ?thesis by (auto split: if_splits)
    qed
    then have "\<forall>k' l'. layers ?p k' = Some l' \<and> svgNode l' = nid w \<longrightarrow> k' = wrapper_id oid n"
      by blast
    with l n(2) have "layers ?p (wrapper_id oid n) = Some l \<and> auto l \<and> svgNode l = nid w \<and>
               (\<forall>k' l'. layers ?p k' = Some l' \<and> svgNode l' = nid w \<longrightarrow> k' = wrapper_id oid n)"
      by simp
    then show "\<exists>k l. layers ?p k = Some l \<and> auto l \<and> svgNode l = nid w \<and>
               (\<forall>k' l'. layers ?p k' = Some l' \<and> svgNode l' = nid w \<longrightarrow> k' = k)"
      by (intro exI)
  qed
qed

theorem runs_are_wrapped_witness:
  "well_formed scenario 6 \<and> no_reserved_ids 7 (childNodes scenario) \<and>
   no_inherited_ids (childNodes scenario) \<and>
   map childNodes (filter (\<lambda>c. nid c \<notin> set (map nid (childNodes scenario)))
     (childNodes (svgRoot (init 7 scenario 6 :: unit presentation)))) =
   [[Node 2 (Some ''rect'') ''rect'' None [] []],
    [Node 4 (Some ''circle'') ''circle'' None [] [],
     Node 5 (Some ''g'') ''g'' None [(''id'', ''L1'')] []]]"
proof -
  have wf: "well_formed scenario 6"
    by (simp add: well_formed_def scenario_def)
  have nr: "no_reserved_ids 7 (childNodes scenario)"
    by code_simp
  have ni: "no_inherited_ids (childNodes scenario)"
    by code_simp
  have r: "filter (\<lambda>r. r \<noteq> []) (runs [] [] (childNodes scenario)) =
     [[Node 2 (Some ''rect'') ''rect'' None [] []],
      [Node 4 (Some ''circle'') ''circle'' None [] [],
       Node 5 (Some ''g'') ''g'' None [(''id'', ''L1'')] []]]"
    by code_simp
  from runs_are_wrapped [OF wf nr ni, where ?'a = unit]
  have "map childNodes (filter (\<lambda>c. nid c \<notin> set (map nid (childNodes scenario)))
     (childNodes (svgRoot (init 7 scenario 6 :: unit presentation)))) =
     filter (\<lambda>r. r \<noteq> []) (runs [] [] (childNodes scenario))"
    by (rule conjunct1)
  with wf nr ni r show ?thesis by simp
qed

section \<open>A second pass\<close>

text \<open>
  C7, as stated: a second pass on the tree that the first one left moves no node. In
  \<open>clash_wrapper\<close> the first pass leaves the group and a wrapper of the same id; the
  second pass takes the wrapper for a second group of that id and moves it into a
  wrapper of its own.
\<close>

theorem second_pass_moves_wrapper:
  "well_formed clash_wrapper 3 \<and>
   childNodes (svgRoot (init 1 clash_wrapper 3 :: unit presentation)) =
     [Node 1 (Some ''g'') ''g'' None [(''id'', ''sozi-wrapper-1-0'')] [],
      Node 3 (Some ''g'') ''g'' None [(''id'', ''sozi-wrapper-1-0'')]
        [Node 2 (Some ''rect'') ''rect'' None [] []]] \<and>
   childNodes (svgRoot (init 2 (svgRoot (init 1 clash_wrapper 3 :: unit presentation)) 4
       :: unit presentation)) =
     [Node 1 (Some ''g'') ''g'' None [(''id'', ''sozi-wrapper-1-0'')] [],
      Node 4 (Some ''g'') ''g'' None [(''id'', ''sozi-wrapper-2-0'')]
        [Node 3 (Some ''g'') ''g'' None [(''id'', ''sozi-wrapper-1-0'')]
           [Node 2 (Some ''rect'') ''rect'' None [] []]]]"
  by code_simp

text \<open>
  C7, amended: when no child of the root has a reserved id, a second pass (of any
  presentation) over the tree \<open>T\<close> that the first pass left changes nothing in the
  tree: the root is the same, the wrapper of the second pass stays empty and is the
  first of its kind, every child of \<open>T\<close> is an element, and every drawable child of \<open>T\<close>
  is registered as an explicit layer of its own (a child that is not drawable is left
  where it is and is no layer).
\<close>

theorem second_pass_changes_nothing:
  fixes oid' fresh' :: nat
  assumes wf: "well_formed root fresh" and nr: "no_reserved_ids oid (childNodes root)"
  defines "T \<equiv> svgRoot (init oid root fresh :: 'a presentation)"
  shows "svgRoot (init oid' T fresh' :: 'b presentation) = T \<and>
         childNodes (svgWrapper (pass oid' T fresh' :: 'b init_state)) = [] \<and>
         wrapperCount (pass oid' T fresh' :: 'b init_state) = 0 \<and>
         (\<forall>c\<in>set (childNodes T). tagName c \<noteq> None \<and>
            (drawable c \<longrightarrow>
               (\<exists>i. getAttribute c ''id'' = Some i \<and>
                    layers (init oid' T fresh' :: 'b presentation) i = Some (explicit_layer c))))"
proof -
  let ?start = "init_start oid' T fresh' :: 'b init_state"
  let ?after = "pass oid' T fresh' :: 'b init_state"
  have st: "settled (childNodes T)"
    unfolding T_def using wf nr by (rule settled_pass)
  have e: "childNodes (svgWrapper ?start) = []"
    by (simp add: init_start_def)
  have f: "\<forall>c\<in>set (childNodes T). drawable c \<longrightarrow>
      (\<forall>i. getAttribute c ''id'' = Some i \<longrightarrow> layers ?start i = None)"
    by (simp add: init_start_def)
  have r: "svgRoot ?after = svgRoot ?start \<and> svgWrapper ?after = svgWrapper ?start \<and>
         wrapperCount ?after = wrapperCount ?start \<and>
         (\<forall>c\<in>set (childNodes T). drawable c \<longrightarrow>
            (\<exists>i. getAttribute c ''id'' = Some i \<and> layers ?after i = Some (explicit_layer c))) \<and>
         (\<forall>k. Some k \<notin> (\<lambda>c. getAttribute c ''id'') ` set (filter drawable (childNodes T)) \<longrightarrow>
            layers ?after k = layers ?start k)"
    unfolding pass_def by (rule settled_forEach [OF st e f])
  then have w: "childNodes (svgWrapper ?after) = []" "wrapperCount ?after = 0"
    "svgRoot ?after = T"
    by (simp_all add: init_start_def)
  then have same: "append_wrapper ?after = ?after"
    by (simp add: append_wrapper_def)
  have p: "svgRoot (init oid' T fresh' :: 'b presentation) = T"
    "layers (init oid' T fresh' :: 'b presentation) = layers ?after"
    using w(3) by (simp_all add: init_def presentation.truncate_def same)
  have "\<forall>c\<in>set (childNodes T). tagName c \<noteq> None"
    using st by (simp add: settled_def)
  with r w p show ?thesis by simp
qed

theorem second_pass_changes_nothing_witness:
  "well_formed scenario 6 \<and> no_reserved_ids 7 (childNodes scenario) \<and>
   svgRoot (init 8 (svgRoot (init 7 scenario 6 :: unit presentation)) 8 :: unit presentation) =
   svgRoot (init 7 scenario 6 :: unit presentation)"
proof -
  have wf: "well_formed scenario 6"
    by (simp add: well_formed_def scenario_def)
  have nr: "no_reserved_ids 7 (childNodes scenario)"
    by code_simp
  from second_pass_changes_nothing [OF wf nr, of 8 8, where ?'a = unit and ?'b = unit]
  have "svgRoot (init 8 (svgRoot (init 7 scenario 6 :: unit presentation)) 8 :: unit presentation) =
        svgRoot (init 7 scenario 6 :: unit presentation)"
    by (rule conjunct1)
  with wf nr show ?thesis by simp
qed

section \<open>The label of the wrappers\<close>

text \<open>
  C10. When the wrapper that is left after the loop has a child, it is registered
  under its id with the fields \<open>auto\<close>, \<open>selected\<close> and \<open>svgNode\<close> and without label,
  whereas every auto layer registered in the loop has the label made of \<^verbatim>\<open>#\<close> and its
  id; in the layer map of the presentation every auto layer but the last has such a
  label.
\<close>

theorem final_wrapper_has_no_label:
  assumes "childNodes (svgWrapper (pass oid root fresh :: 'a init_state)) \<noteq> []"
  shows "layers (init oid root fresh :: 'a presentation)
           (wrapper_id oid (wrapperCount (pass oid root fresh :: 'a init_state))) =
         Some \<lparr>auto = True, selected = True, label = None,
               svgNode = nid (svgWrapper (pass oid root fresh :: 'a init_state))\<rparr> \<and>
         (\<forall>k l. layers (pass oid root fresh :: 'a init_state) k = Some l \<and> auto l \<longrightarrow>
            label l = Some (''#'' @ k)) \<and>
         (\<forall>k l. layers (init oid root fresh :: 'a presentation) k = Some l \<and> auto l \<and>
            k \<noteq> wrapper_id oid (wrapperCount (pass oid root fresh :: 'a init_state)) \<longrightarrow>
            label l = Some (''#'' @ k))"
proof -
  let ?s = "pass oid root fresh :: 'a init_state"
  have "attributes (svgWrapper ?s) = [(''id'', wrapper_id (pid ?s) (wrapperCount ?s))]"
    unfolding pass_def by (rule wrapper_attr_forEach) (simp add: init_start_def)
  moreover have "pid ?s = oid"
    by (simp add: pass_def init_start_def)
  ultimately have key: "getAttribute (svgWrapper ?s) ''id'' = Some (wrapper_id oid (wrapperCount ?s))"
    by (simp add: getAttribute_def)
  have mid: "\<forall>k l. layers ?s k = Some l \<longrightarrow> auto l \<longrightarrow> label l = Some (''#'' @ k)"
    unfolding pass_def by (rule labels_forEach) (simp add: init_start_def)
  have fin: "layers (init oid root fresh :: 'a presentation) =
             (layers ?s)(wrapper_id oid (wrapperCount ?s) \<mapsto>
                (wrapper_layer (svgWrapper ?s))\<lparr>label := None\<rparr>)"
    using assms key by (simp add: init_def presentation.truncate_def layers_append_wrapper)
  show ?thesis
    using mid unfolding fin by (auto simp: wrapper_layer_def)
qed

theorem final_wrapper_has_no_label_witness:
  "childNodes (svgWrapper (pass 7 scenario 6 :: unit init_state)) \<noteq> [] \<and>
   layers (init 7 scenario 6 :: unit presentation) (wrapper_id 7 1) =
     Some \<lparr>auto = True, selected = True, label = None, svgNode = 7\<rparr>"
proof -
  have h: "childNodes (svgWrapper (pass 7 scenario 6 :: unit init_state)) \<noteq> []"
    by code_simp
  have e: "wrapperCount (pass 7 scenario 6 :: unit init_state) = 1"
    "nid (svgWrapper (pass 7 scenario 6 :: unit init_state)) = 7"
    by code_simp+
  show ?thesis
    using h final_wrapper_has_no_label [OF h] unfolding e by simp
qed

section \<open>Adding a frame next to the selected one\<close>

text \<open>
  C1. With exactly the frame at index k selected, \<^verbatim>\<open>addFrame\<close> is to insert the new
  frame at index k + 1 and leave it as the only selected frame. The loop leaves
  \<^verbatim>\<open>frameIndex\<close> at k, the index of the frame that was selected, and
  \<^verbatim>\<open>selectFrame(frameIndex)\<close> selects that frame again: in \<open>demo\<close>, where k = 1, the
  new frame (id 9) stands at index 2 and is not selected, the frame at index 1 is.
\<close>

theorem addFrame_selects_the_old_frame:
  "map id' (frames (snd (addFrame 9 50 demo))) = [2, 3, 9, 4] \<and>
   map selected (frames (snd (addFrame 9 50 demo))) = [False, True, False, False]"
  by code_simp

text \<open>
  C2. The notification \<^verbatim>\<open>addFrame\<close> is to carry the new frame and the index where it
  was inserted, and to come before the notifications of the selection. It does come
  first, but in \<open>demo\<close> it carries the index 1, while the new frame stands at index 2.
\<close>

theorem addFrame_fires_the_old_index:
  "fired (snd (addFrame 9 50 demo)) =
     [E_addFrame (Frame_init 9 1 50) 1, E_deselectFrame 0, E_deselectFrame 1,
      E_deselectFrame 2, E_deselectFrame 3, E_selectFrame 1] \<and>
   frame_at (frames (snd (addFrame 9 50 demo))) 2 = Some (Frame_init 9 1 50) \<and>
   map_option id' (frame_at (frames (snd (addFrame 9 50 demo))) 1) = Some 3"
  by code_simp

section \<open>Selection with a reference that is not valid\<close>

text \<open>
  C8, as stated: for every layer id that is not in the layer map, \<^verbatim>\<open>selectLayer\<close> and
  \<^verbatim>\<open>deselectLayer\<close> fail. The id \<^verbatim>\<open>toString\<close> is not in the layer map of \<open>demo\<close>,
  and \<^verbatim>\<open>selectLayer\<close> returns.
\<close>

theorem selectLayer_inherited_returns:
  "layers demo ''toString'' = None \<and> fst (selectLayer ''toString'' demo) = None"
  by (simp add: demo_def selectLayer_def get_property_def Object_prototype_def)

text \<open>
  C8, amended: for every layer id that is neither in the layer map nor the name of a
  property inherited from \<^verbatim>\<open>Object.prototype\<close>, \<^verbatim>\<open>selectLayer\<close> and \<^verbatim>\<open>deselectLayer\<close>
  fail with a TypeError; for every whole frame index outside the bounds of the frame
  sequence, \<^verbatim>\<open>selectFrame\<close> and \<^verbatim>\<open>deselectFrame\<close> fail with a TypeError.
\<close>

theorem select_invalid_reference_fails:
  "(layers p layerId = None \<and> layerId \<notin> set Object_prototype \<longrightarrow>
      fst (selectLayer layerId p) = Some TypeError \<and>
      fst (deselectLayer layerId p) = Some TypeError) \<and>
   (frameIndex < 0 \<or> int (length (frames p)) \<le> frameIndex \<longrightarrow>
      fst (selectFrame frameIndex p) = Some TypeError \<and>
      fst (deselectFrame frameIndex p) = Some TypeError)"
  by (auto simp: selectLayer_def deselectLayer_def get_property_def selectFrame_def
      deselectFrame_def frame_at_def)

theorem select_invalid_reference_fails_witness:
  "layers demo ''L2'' = None \<and> ''L2'' \<notin> set Object_prototype \<and>
   fst (selectLayer ''L2'' demo) = Some TypeError \<and>
   fst (deselectLayer ''L2'' demo) = Some TypeError \<and>
   int (length (frames demo)) \<le> 3 \<and>
   fst (selectFrame 3 demo) = Some TypeError \<and>
   fst (deselectFrame 3 demo) = Some TypeError"
proof -
  have h: "layers demo ''L2'' = None \<and> ''L2'' \<notin> set Object_prototype"
    by (simp add: demo_def Object_prototype_def)
  have k: "int (length (frames demo)) \<le> 3"
    by (simp add: demo_def)
  show ?thesis
    using h k select_invalid_reference_fails [of demo "''L2''" 3] by simp
qed

text \<open>
  C9, as stated: with an unknown layer id a selection operation fails before any
  notification. The id \<^verbatim>\<open>constructor\<close> is not in the layer map of \<open>demo\<close>;
  \<^verbatim>\<open>deselectLayer\<close> returns and has fired its notification.
\<close>

theorem deselectLayer_inherited_fires:
  "layers demo ''constructor'' = None \<and>
   deselectLayer ''constructor'' demo = (None, demo\<lparr>fired := [E_deselectLayer ''constructor'']\<rparr>)"
  by (simp add: demo_def deselectLayer_def get_property_def Object_prototype_def fire_def)

text \<open>
  C9, amended: when a selection operation is invoked with a layer id that is neither in
  the layer map nor inherited from \<^verbatim>\<open>Object.prototype\<close>, or with a whole frame index
  out of range, it fails and leaves the presentation as it was: no flag of a layer or a
  frame is changed and no notification is added to the trace.
\<close>

theorem select_invalid_reference_changes_nothing:
  "(layers p layerId = None \<and> layerId \<notin> set Object_prototype \<longrightarrow>
      selectLayer layerId p = (Some TypeError, p) \<and>
      deselectLayer layerId p = (Some TypeError, p)) \<and>
   (frameIndex < 0 \<or> int (length (frames p)) \<le> frameIndex \<longrightarrow>
      selectFrame frameIndex p = (Some TypeError, p) \<and>
      deselectFrame frameIndex p = (Some TypeError, p))"
  by (auto simp: selectLayer_def deselectLayer_def get_property_def selectFrame_def
      deselectFrame_def frame_at_def)

theorem select_invalid_reference_changes_nothing_witness:
  "layers demo ''nolayer'' = None \<and> ''nolayer'' \<notin> set Object_prototype \<and>
   selectLayer ''nolayer'' demo = (Some TypeError, demo) \<and>
   deselectLayer ''nolayer'' demo = (Some TypeError, demo) \<and>
   (- 1 :: int) < 0 \<and>
   selectFrame (- 1) demo = (Some TypeError, demo) \<and>
   deselectFrame (- 1) demo = (Some TypeError, demo)"
proof -
  have h: "layers demo ''nolayer'' = None \<and> ''nolayer'' \<notin> set Object_prototype"
    by (simp add: demo_def Object_prototype_def)
  show ?thesis
    using h select_invalid_reference_changes_nothing [of demo "''nolayer''" "- 1"] by simp
qed

end
